theory Spec2Isabelle
  imports Complex_Main "HOL-Library.Sublist"
begin

section \<open>Errors, time and the outside world\<close>

text \<open>
  Every error raised in the modelled files is a plain \<^verbatim>\<open>new Error(message)\<close>, and every
  handler reads nothing but \<^verbatim>\<open>error.message\<close>; an error is therefore its message.
\<close>

datatype error = Error (message: string)

text \<open>
  \<^verbatim>\<open>Date.now()\<close> reads the field \<open>clock\<close> (milliseconds). Everything else that a wrapped
  function or a tool can read or write (databases, mocks, counters of a test) is the
  field \<open>ext\<close>. A function that is awaited is a transformer of this world: it returns its
  outcome together with the world in which it settles.
\<close>

record 'e world =
  clock :: int
  ext :: 'e

type_synonym ('e, 'a) async = "'e world \<Rightarrow> (error + 'a) \<times> 'e world"

section \<open>CircuitBreaker\<close>

record CircuitBreakerState =
  failures :: nat
  lastFailureTime :: int
  isOpen :: bool

type_synonym states = "string \<rightharpoonup> CircuitBreakerState"

definition failureThreshold :: nat where
  "failureThreshold = 3"

definition openDuration :: int where
  "openDuration = 30000"

definition initialState :: CircuitBreakerState where
  "initialState = \<lparr>failures = 0, lastFailureTime = 0, isOpen = False\<rparr>"

text \<open>\<^verbatim>\<open>getState\<close>: the entry of the tool, created on first use.\<close>

definition getState :: "states \<Rightarrow> string \<Rightarrow> CircuitBreakerState \<times> states" where
  "getState m toolName =
     (case m toolName of
        None \<Rightarrow> (initialState, m(toolName \<mapsto> initialState))
      | Some s \<Rightarrow> (s, m))"

definition onSuccess :: "states \<Rightarrow> string \<Rightarrow> states" where
  "onSuccess m toolName =
     (case getState m toolName of
        (state, m') \<Rightarrow> m'(toolName \<mapsto> state\<lparr>failures := 0, isOpen := False\<rparr>))"

text \<open>\<^verbatim>\<open>onFailure\<close>; the argument \<open>now\<close> is the value \<^verbatim>\<open>Date.now()\<close> returns in it.\<close>

definition onFailure :: "states \<Rightarrow> string \<Rightarrow> int \<Rightarrow> states" where
  "onFailure m toolName now =
     (case getState m toolName of
        (state, m') \<Rightarrow>
          (let state1 = state\<lparr>failures := failures state + 1, lastFailureTime := now\<rparr>;
               state2 = (if failures state1 \<ge> failureThreshold
                         then state1\<lparr>isOpen := True\<rparr> else state1)
           in m'(toolName \<mapsto> state2)))"

definition resetCircuit :: "states \<Rightarrow> string \<Rightarrow> states" where
  "resetCircuit m toolName = m(toolName \<mapsto> initialState)"

definition circuitOpenError :: "string \<Rightarrow> error" where
  "circuitOpenError toolName = Error (''Circuit breaker open for '' @ toolName)"

text \<open>
  \<^verbatim>\<open>CircuitBreaker.execute(toolName, fn)\<close>. The result is what the caller receives
  (\<open>Inl\<close>: the error thrown), the breaker's map afterwards and the world afterwards.
\<close>

definition CircuitBreaker_execute ::
  "string \<Rightarrow> ('e, 'a) async \<Rightarrow> states \<Rightarrow> 'e world \<Rightarrow> (error + 'a) \<times> states \<times> 'e world" where
  "CircuitBreaker_execute toolName fn m w =
     (case getState m toolName of
        (state, m1) \<Rightarrow>
          if isOpen state \<and> clock w - lastFailureTime state < openDuration
          then (Inl (circuitOpenError toolName), m1, w)
          else
            (let m2 = (if isOpen state then resetCircuit m1 toolName else m1)
             in case fn w of
                  (Inr result, w') \<Rightarrow> (Inr result, onSuccess m2 toolName, w')
                | (Inl err, w') \<Rightarrow> (Inl err, onFailure m2 toolName (clock w'), w')))"

definition CircuitBreaker_isOpen :: "states \<Rightarrow> string \<Rightarrow> bool" where
  "CircuitBreaker_isOpen m toolName = isOpen (fst (getState m toolName))"

text \<open>The breaker's map after a call (of the breaker or of a tool), and the world after it.\<close>

definition statesAfter :: "'r \<times> states \<times> 'w \<Rightarrow> states" where
  "statesAfter r = fst (snd r)"

definition worldAfter :: "'r \<times> states \<times> 'w \<Rightarrow> 'w" where
  "worldAfter r = snd (snd r)"

text \<open>
  The counter of consecutive failures of a tool stands at zero: the tool was never
  called, or its last call succeeded.
\<close>

definition noFailures :: "states \<Rightarrow> string \<Rightarrow> bool" where
  "noFailures m toolName =
     (case m toolName of None \<Rightarrow> True | Some s \<Rightarrow> failures s = 0 \<and> \<not> isOpen s)"

text \<open>The test of \<^verbatim>\<open>execute\<close> that refuses a call: the circuit is open and cooling down.\<close>

definition blocked :: "states \<Rightarrow> string \<Rightarrow> int \<Rightarrow> bool" where
  "blocked m toolName now =
     (isOpen (fst (getState m toolName))
      \<and> now - lastFailureTime (fst (getState m toolName)) < openDuration)"

text \<open>A test double: it fails with the given error and counts its calls in \<open>ext\<close>.\<close>

definition failingSpy :: "error \<Rightarrow> (nat, 'a) async" where
  "failingSpy e w = (Inl e, w\<lparr>ext := ext w + 1\<rparr>)"

section \<open>BaseTool\<close>

record 'd ToolResult =
  ok :: bool
  data :: "'d option"
  error :: "string option"
  duration :: int

text \<open>
  How the promise returned by a tool's \<^verbatim>\<open>run\<close> settles. \<open>Pending\<close> is a promise that
  never settles. The world returned with it is the world at the moment of settling.
\<close>

datatype 'd settled = Resolved 'd | Rejected error | Pending

text \<open>
  A tool: the fields of \<^verbatim>\<open>BaseTool\<close> and the subclass's \<^verbatim>\<open>run\<close>. The field \<open>name\<close> is
  \<^verbatim>\<open>this.constructor.name\<close>, the key of the tool in the circuit breaker.
\<close>

record ('c, 'e, 'd) tool =
  name :: string
  timeout :: int
  maxRetries :: nat
  retryDelays :: "int list"
  run :: "'c \<Rightarrow> 'e world \<Rightarrow> 'd settled \<times> 'e world"

text \<open>The defaults of the class: 1 second, 2 retries, delays of 150 and 400 ms.\<close>

definition BaseTool :: "string \<Rightarrow> ('c \<Rightarrow> 'e world \<Rightarrow> 'd settled \<times> 'e world) \<Rightarrow> ('c, 'e, 'd) tool" where
  "BaseTool n r = \<lparr>name = n, timeout = 1000, maxRetries = 2, retryDelays = [150, 400], run = r\<rparr>"

definition timeoutError :: error where
  "timeoutError = Error ''Tool timeout exceeded''"

definition sleep :: "int \<Rightarrow> 'e world \<Rightarrow> 'e world" where
  "sleep ms w = w\<lparr>clock := clock w + ms\<rparr>"

text \<open>
  \<^verbatim>\<open>executeWithTimeout\<close>: \<^verbatim>\<open>Promise.race([this.run(context), this.timeoutPromise()])\<close>.
  The run wins when it settles less than \<open>timeout\<close> ms after its start; otherwise the
  timer rejects at \<open>timeout\<close> ms. The abandoned run is not cancelled: what it did to
  \<open>ext\<close> stays done.
\<close>

definition executeWithTimeout :: "('c, 'e, 'd) tool \<Rightarrow> 'c \<Rightarrow> ('e, 'd) async" where
  "executeWithTimeout t context w =
     (case run t context w of
        (outcome, w') \<Rightarrow>
          (let timedOut = (Inl timeoutError, w'\<lparr>clock := clock w + timeout t\<rparr>)
           in case outcome of
                Pending \<Rightarrow> timedOut
              | Resolved result \<Rightarrow>
                  if clock w' - clock w < timeout t then (Inr result, w') else timedOut
              | Rejected err \<Rightarrow>
                  if clock w' - clock w < timeout t then (Inl err, w') else timedOut))"

text \<open>
  The delay before the retry that follows the failed attempt \<open>attempt\<close>:
  \<^verbatim>\<open>this.retryDelays[attempt] + Math.random() * 50\<close>. The argument \<open>jitter\<close> gives
  the random summand of each attempt. Beyond the end of \<open>retryDelays\<close> the sum is NaN,
  which \<^verbatim>\<open>setTimeout\<close> takes as 1 ms.
\<close>

definition retryDelay :: "('c, 'e, 'd) tool \<Rightarrow> (nat \<Rightarrow> int) \<Rightarrow> nat \<Rightarrow> int" where
  "retryDelay t jitter attempt =
     (if attempt < length (retryDelays t) then retryDelays t ! attempt + jitter attempt else 1)"

text \<open>
  The loop of \<^verbatim>\<open>executeWithRetry\<close> from the iteration \<open>attempt\<close> on; leaving the loop
  throws \<^verbatim>\<open>lastError\<close>, the error of the last attempt.
\<close>

function retryLoop ::
  "('c, 'e, 'd) tool \<Rightarrow> (nat \<Rightarrow> int) \<Rightarrow> 'c \<Rightarrow> nat \<Rightarrow> ('e, 'd) async" where
  "retryLoop t jitter context attempt w =
     (let r = executeWithTimeout t context w
      in case fst r of
           Inr result \<Rightarrow> (Inr result, snd r)
         | Inl err \<Rightarrow>
             if attempt < maxRetries t
             then retryLoop t jitter context (attempt + 1)
                    (sleep (retryDelay t jitter attempt) (snd r))
             else (Inl err, snd r))"
  by pat_completeness auto
termination
  by (relation "measure (\<lambda>(t, jitter, context, attempt, w). maxRetries t + 1 - attempt)") auto

declare retryLoop.simps [simp del]

definition executeWithRetry ::
  "('c, 'e, 'd) tool \<Rightarrow> (nat \<Rightarrow> int) \<Rightarrow> 'c \<Rightarrow> ('e, 'd) async" where
  "executeWithRetry t jitter context = retryLoop t jitter context 0"

text \<open>
  \<^verbatim>\<open>BaseTool.execute\<close>. The \<^verbatim>\<open>catch\<close> clause covers the whole body, so both branches
  end in a \<^verbatim>\<open>return\<close>. Logging and metrics are left out.
\<close>

definition BaseTool_execute ::
  "('c, 'e, 'd) tool \<Rightarrow> (nat \<Rightarrow> int) \<Rightarrow> 'c \<Rightarrow> states \<Rightarrow> 'e world
     \<Rightarrow> 'd ToolResult \<times> states \<times> 'e world" where
  "BaseTool_execute t jitter context m w =
     (let startTime = clock w;
          toolName = name t
      in case CircuitBreaker_execute toolName (executeWithRetry t jitter context) m w of
           (Inr result, m', w') \<Rightarrow>
             (\<lparr>ok = True, data = Some result, error = None,
               duration = clock w' - startTime\<rparr>, m', w')
         | (Inl err, m', w') \<Rightarrow>
             (\<lparr>ok = False, data = None, error = Some (message err),
               duration = clock w' - startTime\<rparr>, m', w'))"

text \<open>
  A test double for \<^verbatim>\<open>run\<close>: it behaves as \<open>r\<close> does on the second component of
  \<open>ext\<close> and counts its invocations in the first.
\<close>

definition countingRun ::
  "('c \<Rightarrow> 'e world \<Rightarrow> 'd settled \<times> 'e world)
     \<Rightarrow> 'c \<Rightarrow> (nat \<times> 'e) world \<Rightarrow> 'd settled \<times> (nat \<times> 'e) world" where
  "countingRun r context w =
     (case r context \<lparr>clock = clock w, ext = snd (ext w)\<rparr> of
        (outcome, w') \<Rightarrow> (outcome, \<lparr>clock = clock w', ext = (Suc (fst (ext w)), ext w')\<rparr>))"

definition invocations :: "(nat \<times> 'e) world \<Rightarrow> nat" where
  "invocations w = fst (ext w)"

text \<open>Two behaviours of a dependency that is down: it refuses after 20 ms, or it hangs.\<close>

definition refusingRun :: "'c \<Rightarrow> 'e world \<Rightarrow> 'd settled \<times> 'e world" where
  "refusingRun context w = (Rejected (Error ''connection refused''), w\<lparr>clock := clock w + 20\<rparr>)"

definition hangingRun :: "'c \<Rightarrow> 'e world \<Rightarrow> 'd settled \<times> 'e world" where
  "hangingRun context w = (Pending, w)"

section \<open>RateLimiter\<close>

record RateLimitBucket =
  tokens :: rat
  lastRefill :: int

text \<open>
  Modelled from the spec: the shared key-value store (\<^verbatim>\<open>lib/redis\<close> is not among the
  sources): get and set-with-TTL on string keys. A value is gone once its time to live has
  passed. An unavailable store throws: \<open>getFault\<close> and \<open>setFault\<close> say for which keys.
  The values under the keys of the rate limiter are only ever written by \<^verbatim>\<open>checkLimit\<close>
  as \<^verbatim>\<open>JSON.stringify({ tokens, lastRefill })\<close>, so a value is kept as the bucket it encodes.
\<close>

record redis =
  entries :: "string \<rightharpoonup> (RateLimitBucket \<times> int)"
  getFault :: "string \<Rightarrow> error option"
  setFault :: "string \<Rightarrow> error option"

definition redis_get :: "redis \<Rightarrow> string \<Rightarrow> int \<Rightarrow> error + RateLimitBucket option" where
  "redis_get r key now =
     (case getFault r key of
        Some e \<Rightarrow> Inl e
      | None \<Rightarrow>
          Inr (case entries r key of
                 None \<Rightarrow> None
               | Some (v, expiry) \<Rightarrow> if now < expiry then Some v else None))"

definition redis_setEx :: "redis \<Rightarrow> string \<Rightarrow> int \<Rightarrow> RateLimitBucket \<Rightarrow> int \<Rightarrow> error + redis" where
  "redis_setEx r key seconds v now =
     (case setFault r key of
        Some e \<Rightarrow> Inl e
      | None \<Rightarrow> Inr (r\<lparr>entries := (entries r)(key \<mapsto> (v, now + seconds * 1000))\<rparr>))"

text \<open>The parts of the request that \<^verbatim>\<open>getClientId\<close> reads.\<close>

datatype header = Absent | Single string | Multiple "string list"

record request =
  x_api_key :: header
  ip :: "string option"
  remoteAddress :: "string option"

text \<open>\<^verbatim>\<open>a || b\<close> on optional strings: the empty string is falsy.\<close>

definition orElse :: "string option \<Rightarrow> string option \<Rightarrow> string option" where
  "orElse a b = (case a of Some s \<Rightarrow> (if s = [] then b else Some s) | None \<Rightarrow> b)"

definition getClientId :: "request \<Rightarrow> string" where
  "getClientId req =
     (case x_api_key req of
        Single apiKey \<Rightarrow>
          if apiKey \<noteq> [] then ''key:'' @ apiKey
          else ''ip:'' @ the (orElse (orElse (ip req) (remoteAddress req)) (Some ''unknown''))
      | _ \<Rightarrow> ''ip:'' @ the (orElse (orElse (ip req) (remoteAddress req)) (Some ''unknown'')))"

text \<open>
  The limiter's configuration, read from the environment by \<^verbatim>\<open>parseInt\<close>
  (defaults 5 and 5); \<^verbatim>\<open>refillInterval\<close> is the constant 1000.
\<close>

record RateLimiter =
  maxTokens :: int
  refillRate :: int

definition refillInterval :: int where
  "refillInterval = 1000"

text \<open>
  What \<^verbatim>\<open>checkLimit\<close> does with the request: it calls \<^verbatim>\<open>next()\<close>, or it answers
  \<^verbatim>\<open>res.status(429).json({ error, retryAfter, ... })\<close>. A \<open>retryAfter\<close> that is not finite
  (\<open>refillRate = 0\<close>) is \<open>None\<close>.
\<close>

datatype response = Next | TooManyRequests (status: nat) (retryAfter: "int option")

text \<open>
  \<^verbatim>\<open>checkLimit\<close>; \<open>now\<close> is the value of \<^verbatim>\<open>Date.now()\<close>. JavaScript's numbers are
  taken as exact rationals.
\<close>

definition checkLimit :: "RateLimiter \<Rightarrow> request \<Rightarrow> int \<Rightarrow> redis \<Rightarrow> response \<times> redis" where
  "checkLimit rl req now r =
     (let clientId = getClientId req;
          key = ''rate_limit:'' @ clientId
      in case redis_get r key now of
           Inl e \<Rightarrow> (Next, r)
         | Inr bucketData \<Rightarrow>
             (let bucket =
                    (case bucketData of
                       Some b \<Rightarrow>
                         (let timeElapsed = now - lastRefill b;
                              tokensToAdd = (of_int timeElapsed / of_int refillInterval)
                                              * of_int (refillRate rl)
                          in \<lparr>tokens = min (of_int (maxTokens rl)) (tokens b + tokensToAdd),
                              lastRefill = now\<rparr>)
                     | None \<Rightarrow> \<lparr>tokens = of_int (maxTokens rl), lastRefill = now\<rparr>)
              in if tokens bucket \<ge> 1
                 then (case redis_setEx r key 60 (bucket\<lparr>tokens := tokens bucket - 1\<rparr>) now of
                         Inl e \<Rightarrow> (Next, r)
                       | Inr r' \<Rightarrow> (Next, r'))
                 else
                   (let retryAfterMs =
                          \<lceil>(1 - tokens bucket) / of_int (refillRate rl) * of_int refillInterval\<rceil>;
                        retryAfterSeconds = \<lceil>(of_int retryAfterMs :: rat) / 1000\<rceil>
                    in (TooManyRequests 429
                          (if refillRate rl = 0 then None else Some retryAfterSeconds), r))))"

text \<open>
  The key of a request's bucket, a store whose operations on a key do not throw, and the
  store after \<^verbatim>\<open>setEx(key, 60, bucket)\<close> at time \<open>now\<close>.
\<close>

definition bucketKey :: "request \<Rightarrow> string" where
  "bucketKey req = ''rate_limit:'' @ getClientId req"

definition healthy :: "redis \<Rightarrow> string \<Rightarrow> bool" where
  "healthy r key = (getFault r key = None \<and> setFault r key = None)"

definition stored :: "redis \<Rightarrow> string \<Rightarrow> RateLimitBucket \<Rightarrow> int \<Rightarrow> redis" where
  "stored r key b now = r\<lparr>entries := (entries r)(key \<mapsto> (b, now + 60000))\<rparr>"

section \<open>Orchestrator\<close>

text \<open>Data that the orchestrator passes on without looking inside (rows of the database).\<close>

datatype json = JNull | JBool bool | JNum int | JStr string | JArr "json list"
  | JObj "(string \<times> json) list"

text \<open>
  What the tools return (\<^verbatim>\<open>Promise<any>\<close>), by the class that produces it, with the
  properties that the orchestrator or another tool reads: \<^verbatim>\<open>DataAccessAgent\<close>
  \<^verbatim>\<open>{ customer, transactions }\<close>, \<^verbatim>\<open>FraudAgent\<close> \<^verbatim>\<open>{ risk, reasons, action, ... }\<close>,
  \<^verbatim>\<open>KnowledgeBaseAgent\<close> an array of documents (their titles), \<^verbatim>\<open>ComplianceAgent\<close>
  \<^verbatim>\<open>{ requiresOTP, ... }\<close>, \<^verbatim>\<open>DecisionTool\<close> \<^verbatim>\<open>{ recommendedAction, confidence }\<close>,
  \<^verbatim>\<open>ProposeActionTool\<close> \<^verbatim>\<open>{ action, confidence, requiresApproval, blockedByPolicy }\<close>,
  the insights agent \<^verbatim>\<open>{ spendPattern, ... }\<close>, the redactor \<^verbatim>\<open>{ piiFound, ... }\<close>, and any
  other object.
\<close>

datatype payload =
    DataAccessData "json option" "json list option"
  | RiskData string "string list" string
  | KbData "string list"
  | ComplianceData bool
  | DecisionData string rat
  | ProposalData string rat bool bool
  | InsightsData string
  | RedactorData bool
  | OtherData json

text \<open>Reading a property of a payload; \<open>None\<close> is \<^verbatim>\<open>undefined\<close>.\<close>

fun customer_of :: "payload \<Rightarrow> json option" where
  "customer_of (DataAccessData c ts) = c"
| "customer_of _ = None"

fun transactions_of :: "payload \<Rightarrow> json list option" where
  "transactions_of (DataAccessData c ts) = ts"
| "transactions_of _ = None"

fun risk_of :: "payload \<Rightarrow> string option" where
  "risk_of (RiskData r rs a) = Some r"
| "risk_of _ = None"

fun reasons_of :: "payload \<Rightarrow> string list option" where
  "reasons_of (RiskData r rs a) = Some rs"
| "reasons_of _ = None"

fun action_of :: "payload \<Rightarrow> string option" where
  "action_of (RiskData r rs a) = Some a"
| "action_of (ProposalData a c ra b) = Some a"
| "action_of _ = None"

fun requiresOTP_of :: "payload \<Rightarrow> bool" where
  "requiresOTP_of (ComplianceData otp) = otp"
| "requiresOTP_of _ = False"

fun titles_of :: "payload \<Rightarrow> string list option" where
  "titles_of (KbData ts) = Some ts"
| "titles_of _ = None"

fun spendPattern_of :: "payload \<Rightarrow> string" where
  "spendPattern_of (InsightsData p) = p"
| "spendPattern_of _ = ''undefined''"

fun piiFound_of :: "payload \<Rightarrow> bool" where
  "piiFound_of (RedactorData f) = f"
| "piiFound_of _ = False"

text \<open>\<^verbatim>\<open>x?.p\<close> on a variable that may be \<^verbatim>\<open>null\<close>.\<close>

definition opt :: "('a \<Rightarrow> 'b option) \<Rightarrow> 'a option \<Rightarrow> 'b option" where
  "opt f x = (case x of None \<Rightarrow> None | Some v \<Rightarrow> f v)"

record alertRow =
  alert_customerId :: string
  alert_customer :: "json option"
  alert_fields :: json

record AgentContext =
  customerId :: string
  alertId :: string
  runId :: string
  transactions :: "json list option"
  customer :: "json option"
  alert :: alertRow
  context_riskResult :: "payload option"
  context_complianceResult :: "payload option"

datatype detail = DetailData payload | DetailError "string option"

record AgentStep =
  step :: string
  step_ok :: bool
  step_duration :: int
  detail :: detail
  step_fallbackUsed :: bool

record TriageResult =
  risk :: string
  reasons :: "string list"
  recommendedAction :: string
  plan :: "string list"
  result_steps :: "AgentStep list"
  result_fallbackUsed :: bool
  latencyMs :: int

subsection \<open>The tools written in the repository\<close>

definition definedActions :: "string list" where
  "definedActions = [''freeze_card'', ''open_dispute'', ''contact_customer'', ''mark_false_positive'']"

text \<open>
  \<^verbatim>\<open>ProposeActionTool.run\<close>. The schema accepts the proposal when its action is one of
  the four of the enumeration (the other fields are in range by construction); otherwise
  the \<^verbatim>\<open>catch\<close> clause returns the proposal to contact the customer. The function awaits
  nothing, so its promise is resolved at once.
\<close>

definition ProposeActionTool_run :: "AgentContext \<Rightarrow> 'e world \<Rightarrow> payload settled \<times> 'e world" where
  "ProposeActionTool_run context w =
     (let riskResult = context_riskResult context;
          complianceResult = context_complianceResult context;
          action = the (orElse (opt action_of riskResult) (Some ''mark_false_positive''));
          requiresApproval =
            (action = ''freeze_card''
             \<and> (case complianceResult of None \<Rightarrow> False | Some c \<Rightarrow> requiresOTP_of c));
          confidence =
            (if opt risk_of riskResult = Some ''high''
                \<and> (case opt reasons_of riskResult of None \<Rightarrow> False | Some rs \<Rightarrow> length rs > 2)
             then 92 / 100
             else if opt risk_of riskResult = Some ''low'' then 85 / 100
             else 75 / 100)
      in if action \<in> set definedActions
         then (Resolved (ProposalData action confidence requiresApproval False), w)
         else (Resolved (ProposalData ''contact_customer'' (1 / 2) True False), w))"

text \<open>
  \<^verbatim>\<open>DecisionTool.run\<close> reads \<^verbatim>\<open>context.action\<close>, a property that nothing sets.
\<close>

definition DecisionTool_run :: "AgentContext \<Rightarrow> 'e world \<Rightarrow> payload settled \<times> 'e world" where
  "DecisionTool_run context w = (Resolved (DecisionData ''mark_false_positive'' (85 / 100)), w)"

text \<open>
  The tools whose \<^verbatim>\<open>run\<close> asks the database, or whose source is not at hand; their
  behaviour is a parameter.
\<close>

record 'e agents =
  DataAccessAgent_run :: "AgentContext \<Rightarrow> 'e world \<Rightarrow> payload settled \<times> 'e world"
  InsightsAgent_run :: "AgentContext \<Rightarrow> 'e world \<Rightarrow> payload settled \<times> 'e world"
  FraudAgent_run :: "AgentContext \<Rightarrow> 'e world \<Rightarrow> payload settled \<times> 'e world"
  KnowledgeBaseAgent_run :: "AgentContext \<Rightarrow> 'e world \<Rightarrow> payload settled \<times> 'e world"
  ComplianceAgent_run :: "AgentContext \<Rightarrow> 'e world \<Rightarrow> payload settled \<times> 'e world"
  RedactorAgent_run :: "AgentContext \<Rightarrow> 'e world \<Rightarrow> payload settled \<times> 'e world"
  SummarizerAgent_run :: "AgentContext \<Rightarrow> 'e world \<Rightarrow> payload settled \<times> 'e world"

type_synonym 'e registry = "string \<rightharpoonup> (AgentContext, 'e, payload) tool"

text \<open>The map built by the constructor of \<^verbatim>\<open>Orchestrator\<close>.\<close>

definition Orchestrator_tools :: "'e agents \<Rightarrow> 'e registry" where
  "Orchestrator_tools a =
     [''dataAccess'' \<mapsto> BaseTool ''DataAccessAgent'' (DataAccessAgent_run a),
      ''insights'' \<mapsto> BaseTool ''InsightsAgent'' (InsightsAgent_run a),
      ''riskSignals'' \<mapsto> BaseTool ''FraudAgent'' (FraudAgent_run a),
      ''kbLookup'' \<mapsto> BaseTool ''KnowledgeBaseAgent'' (KnowledgeBaseAgent_run a),
      ''compliance'' \<mapsto> BaseTool ''ComplianceAgent'' (ComplianceAgent_run a),
      ''redactor'' \<mapsto> BaseTool ''RedactorAgent'' (RedactorAgent_run a),
      ''summarizer'' \<mapsto> BaseTool ''SummarizerAgent'' (SummarizerAgent_run a),
      ''decide'' \<mapsto> BaseTool ''DecisionTool'' DecisionTool_run,
      ''proposeAction'' \<mapsto> BaseTool ''ProposeActionTool'' ProposeActionTool_run]"

definition flowBudget :: int where
  "flowBudget = 5000"

definition defaultPlan :: "string list" where
  "defaultPlan = [''dataAccess'', ''riskSignals'', ''kbLookup'', ''decide'', ''proposeAction'']"

subsection \<open>The persistence collaborator and the progress stream\<close>

record traceRow =
  trace_runId :: string
  seq :: nat
  trace_step :: string
  trace_ok :: bool
  durationMs :: int
  detailJson :: detail

record runRow =
  run_id :: string
  run_alertId :: string
  startedAt :: int
  endedAt :: "int option"
  run_risk :: "string option"
  run_reasons :: "string list option"
  run_fallbackUsed :: "bool option"
  run_latencyMs :: "int option"

datatype dbOp =
    AlertFindUnique string
  | TriageRunCreate string string
  | AgentTraceCreate traceRow
  | TriageRunUpdate string

text \<open>
  Modelled from the spec: the persistence collaborator (the Prisma client is a library):
  read an alert with its customer by id, create a run record, append trace records, update
  a run record to its terminal state. \<open>rejects\<close> says which operations the database
  refuses and with which error, \<open>latency\<close> how long each takes.
\<close>

record database =
  alerts :: "string \<rightharpoonup> alertRow"
  triageRuns :: "runRow list"
  agentTraces :: "traceRow list"
  rejects :: "dbOp \<Rightarrow> error option"
  latency :: "dbOp \<Rightarrow> int"

text \<open>The events of the progress stream, with the fields the code gives them.\<close>

datatype event =
    Connected string
  | PlanBuilt "string list" string
  | ToolUpdate string string "int option" string
  | FallbackTriggered string "string option" string
  | DecisionFinalized string "string list" string int string
  | Completed
  | ErrorEvent string

text \<open>
  The callback handed to \<^verbatim>\<open>executeTriage\<close> works on the response it writes to, and may
  throw.
\<close>

type_synonym callback = "event \<Rightarrow> event list \<Rightarrow> error + event list"

text \<open>
  Everything that outlives a run: the circuit breaker of the process, the world of the
  tools, the database and the response stream.
\<close>

record 'e sys =
  breaker :: states
  world :: "'e world"
  db :: database
  stream :: "event list"

text \<open>A run in progress: the local variables of \<^verbatim>\<open>executeTriage\<close> on top of that.\<close>

record 'e triage = "'e sys" +
  "context" :: AgentContext
  steps :: "AgentStep list"
  fallbackUsed :: bool
  insightsResult :: "payload option"
  riskResult :: "payload option"
  kbResults :: "payload option"
  complianceResult :: "payload option"
  redactorResult :: "payload option"
  proposalResult :: "payload option"

text \<open>A statement that may throw: the error if it does, and the state it leaves.\<close>

type_synonym 's stmt = "'s \<Rightarrow> error option \<times> 's"

definition streamEvent :: "callback option \<Rightarrow> event \<Rightarrow> ('e, 'z) sys_scheme stmt" where
  "streamEvent callback ev s =
     (case callback of
        None \<Rightarrow> (None, s)
      | Some f \<Rightarrow>
          (case f ev (stream s) of
             Inl e \<Rightarrow> (Some e, s)
           | Inr written \<Rightarrow> (None, s\<lparr>stream := written\<rparr>)))"

text \<open>An operation of the database takes its time and is then refused or carried out.\<close>

definition prisma :: "dbOp \<Rightarrow> (database \<Rightarrow> database) \<Rightarrow> ('e, 'z) sys_scheme stmt" where
  "prisma operation effect s =
     (let s1 = s\<lparr>world := sleep (latency (db s) operation) (world s)\<rparr>
      in case rejects (db s) operation of
           Some e \<Rightarrow> (Some e, s1)
         | None \<Rightarrow> (None, s1\<lparr>db := effect (db s)\<rparr>))"

definition alert_findUnique ::
  "string \<Rightarrow> ('e, 'z) sys_scheme \<Rightarrow> (error + alertRow option) \<times> ('e, 'z) sys_scheme" where
  "alert_findUnique aid s =
     (case prisma (AlertFindUnique aid) (\<lambda>d. d) s of
        (Some e, s1) \<Rightarrow> (Inl e, s1)
      | (None, s1) \<Rightarrow> (Inr (alerts (db s) aid), s1))"

definition triageRun_create :: "string \<Rightarrow> string \<Rightarrow> ('e, 'z) sys_scheme stmt" where
  "triageRun_create rid aid s =
     prisma (TriageRunCreate rid aid)
       (\<lambda>d. d\<lparr>triageRuns := triageRuns d @
               [\<lparr>run_id = rid, run_alertId = aid, startedAt = clock (world s), endedAt = None,
                 run_risk = None, run_reasons = None, run_fallbackUsed = None,
                 run_latencyMs = None\<rparr>]\<rparr>) s"

definition agentTrace_create :: "traceRow \<Rightarrow> ('e, 'z) sys_scheme stmt" where
  "agentTrace_create row s =
     prisma (AgentTraceCreate row) (\<lambda>d. d\<lparr>agentTraces := agentTraces d @ [row]\<rparr>) s"

definition triageRun_update ::
  "string \<Rightarrow> string \<Rightarrow> string list \<Rightarrow> bool \<Rightarrow> int \<Rightarrow> ('e, 'z) sys_scheme stmt" where
  "triageRun_update rid rk rs fb lat s =
     prisma (TriageRunUpdate rid)
       (\<lambda>d. d\<lparr>triageRuns :=
               map (\<lambda>r. if run_id r = rid
                         then r\<lparr>endedAt := Some (clock (world s)), run_risk := Some rk,
                                run_reasons := Some rs, run_fallbackUsed := Some fb,
                                run_latencyMs := Some lat\<rparr>
                         else r) (triageRuns d)\<rparr>) s"

subsection \<open>executeTriage\<close>

text \<open>What is fixed during a run: the registry, the callback, the random delays of the
  retries by tool, the time of the start and the identifier of the run.\<close>

record 'e invocation =
  tools :: "'e registry"
  streamCallback :: "callback option"
  jitter :: "string \<Rightarrow> nat \<Rightarrow> int"
  startTime :: int
  invocation_runId :: string

definition getFallbackRisk :: payload where
  "getFallbackRisk =
     RiskData ''medium'' [''Risk assessment unavailable (fallback)''] ''freeze_card''"

text \<open>The chain \<^verbatim>\<open>if (step === 'dataAccess' && result.ok) ... else if ...\<close>.\<close>

definition storeResult :: "string \<Rightarrow> payload ToolResult \<Rightarrow> 'e triage \<Rightarrow> 'e triage" where
  "storeResult stp result st =
     (if stp = ''dataAccess'' \<and> ok result
      then st\<lparr>context := (context st)\<lparr>customer := opt customer_of (data result),
                               transactions := opt transactions_of (data result)\<rparr>\<rparr>
      else if stp = ''insights'' \<and> ok result then st\<lparr>insightsResult := data result\<rparr>
      else if stp = ''riskSignals'' \<and> ok result
      then st\<lparr>riskResult := data result,
              context := (context st)\<lparr>context_riskResult := data result\<rparr>\<rparr>
      else if stp = ''kbLookup'' \<and> ok result then st\<lparr>kbResults := data result\<rparr>
      else if stp = ''compliance'' \<and> ok result
      then st\<lparr>complianceResult := data result,
              context := (context st)\<lparr>context_complianceResult := data result\<rparr>\<rparr>
      else if stp = ''redactor'' \<and> ok result then st\<lparr>redactorResult := data result\<rparr>
      else if stp = ''proposeAction'' \<and> ok result then st\<lparr>proposalResult := data result\<rparr>
      else st)"

text \<open>How the body of the \<^verbatim>\<open>try\<close> statement of one iteration ends.\<close>

datatype completion = Normal | Break | Threw error

text \<open>\<^verbatim>\<open>// Record step\<close>: the \<^verbatim>\<open>AgentStep\<close> of a tool result, pushed on \<^verbatim>\<open>steps\<close>.\<close>

definition agentStepOf :: "string \<Rightarrow> payload ToolResult \<Rightarrow> int \<Rightarrow> AgentStep" where
  "agentStepOf stp result dur =
     \<lparr>step = stp, step_ok = ok result, step_duration = dur,
      detail = (case data result of
                  Some d \<Rightarrow> DetailData d
                | None \<Rightarrow> DetailError (error result)),
      step_fallbackUsed = (\<not> ok result)\<rparr>"

definition recordStep :: "string \<Rightarrow> payload ToolResult \<Rightarrow> int \<Rightarrow> 'e triage \<Rightarrow> 'e triage" where
  "recordStep stp result dur st = st\<lparr>steps := steps st @ [agentStepOf stp result dur]\<rparr>"

text \<open>\<^verbatim>\<open>// Save trace\<close>: the row written for the step just recorded.\<close>

definition traceRowOf :: "'e invocation \<Rightarrow> string \<Rightarrow> payload ToolResult \<Rightarrow> int \<Rightarrow> 'e triage \<Rightarrow> traceRow" where
  "traceRowOf call stp result dur st =
     \<lparr>trace_runId = invocation_runId call, seq = length (steps st), trace_step = stp,
      trace_ok = ok result, durationMs = dur,
      detailJson = detail (agentStepOf stp result dur)\<rparr>"

text \<open>
  The rest of the \<^verbatim>\<open>try\<close> block once the trace is saved: the fallback of a failed
  result, or the event \<^verbatim>\<open>completed\<close>.
\<close>

definition afterTrace ::
  "'e invocation \<Rightarrow> string \<Rightarrow> payload ToolResult \<Rightarrow> int \<Rightarrow> 'e triage \<Rightarrow> completion \<times> 'e triage" where
  "afterTrace call stp result dur st =
     (if \<not> ok result
      then
        (case streamEvent (streamCallback call)
                (FallbackTriggered stp (error result) (invocation_runId call))
                (st\<lparr>fallbackUsed := True\<rparr>) of
           (Some e, st1) \<Rightarrow> (Threw e, st1)
         | (None, st1) \<Rightarrow>
             (Normal,
              if stp = ''riskSignals'' then st1\<lparr>riskResult := Some getFallbackRisk\<rparr> else st1))
      else
        (case streamEvent (streamCallback call)
                (ToolUpdate stp ''completed'' (Some dur) (invocation_runId call)) st of
           (Some e, st1) \<Rightarrow> (Threw e, st1)
         | (None, st1) \<Rightarrow> (Normal, st1)))"

text \<open>
  The \<^verbatim>\<open>try\<close> block of one iteration, for a step whose tool is registered;
  \<open>stepStartTime\<close> was read at the top of the iteration.
\<close>

definition tryBlock ::
  "'e invocation \<Rightarrow> (AgentContext, 'e, payload) tool \<Rightarrow> string \<Rightarrow> int \<Rightarrow> 'e triage
     \<Rightarrow> completion \<times> 'e triage" where
  "tryBlock call tool stp stepStartTime st =
     (if clock (world st) - startTime call > flowBudget then (Break, st)
      else
        case streamEvent (streamCallback call)
               (ToolUpdate stp ''running'' None (invocation_runId call)) st of
          (Some e, st1) \<Rightarrow> (Threw e, st1)
        | (None, st1) \<Rightarrow>
            (case BaseTool_execute tool (jitter call (name tool)) (context st1) (breaker st1)
                    (world st1) of
               (result, m', w') \<Rightarrow>
                 (let dur = clock w' - stepStartTime;
                      st2 = storeResult stp result (st1\<lparr>breaker := m', world := w'\<rparr>);
                      st3 = recordStep stp result dur st2
                  in case agentTrace_create (traceRowOf call stp result dur st3) st3 of
                       (Some e, st4) \<Rightarrow> (Threw e, st4)
                     | (None, st4) \<Rightarrow> afterTrace call stp result dur st4)))"

text \<open>The \<^verbatim>\<open>catch\<close> clause of the iteration.\<close>

definition catchBlock :: "string \<Rightarrow> int \<Rightarrow> error \<Rightarrow> 'e triage \<Rightarrow> 'e triage" where
  "catchBlock stp stepStartTime e st =
     st\<lparr>fallbackUsed := True,
        steps := steps st @
          [\<lparr>step = stp, step_ok = False, step_duration = clock (world st) - stepStartTime,
            detail = DetailError (Some (message e)), step_fallbackUsed = True\<rparr>]\<rparr>"

text \<open>The loop \<^verbatim>\<open>for (const step of plan)\<close>.\<close>

fun runSteps :: "'e invocation \<Rightarrow> string list \<Rightarrow> 'e triage \<Rightarrow> 'e triage" where
  "runSteps call [] st = st"
| "runSteps call (stp # rest) st =
     (let stepStartTime = clock (world st)
      in case tools call stp of
           None \<Rightarrow> runSteps call rest st
         | Some tool \<Rightarrow>
             (case tryBlock call tool stp stepStartTime st of
                (Break, st') \<Rightarrow> st'
              | (Normal, st') \<Rightarrow> runSteps call rest st'
              | (Threw e, st') \<Rightarrow> runSteps call rest (catchBlock stp stepStartTime e st')))"

text \<open>\<^verbatim>\<open>titles.join(', ')\<close>.\<close>

fun join :: "string \<Rightarrow> string list \<Rightarrow> string" where
  "join sep [] = []"
| "join sep [x] = x"
| "join sep (x # y # ys) = x @ sep @ join sep (y # ys)"

text \<open>The block after the loop that makes the final decision.\<close>

definition finalRisk :: "'e triage \<Rightarrow> string" where
  "finalRisk st = the (orElse (opt risk_of (riskResult st)) (Some ''medium''))"

definition finalReasons :: "'e triage \<Rightarrow> string list" where
  "finalReasons st =
     (case opt reasons_of (riskResult st) of
        Some rs \<Rightarrow> rs
      | None \<Rightarrow> [''Risk assessment unavailable (fallback)''])
     @ (if (case complianceResult st of None \<Rightarrow> False | Some c \<Rightarrow> requiresOTP_of c)
        then [''OTP verification required''] else [])
     @ (case opt titles_of (kbResults st) of
          Some ts \<Rightarrow> if length ts > 0 then [''KB refs: '' @ join '', '' ts] else []
        | None \<Rightarrow> [])
     @ (case insightsResult st of
          Some i \<Rightarrow> [''Spend pattern: '' @ spendPattern_of i]
        | None \<Rightarrow> [])
     @ (if (case redactorResult st of None \<Rightarrow> False | Some r \<Rightarrow> piiFound_of r)
        then [''PII redacted from logs''] else [])"

definition finalAction :: "'e triage \<Rightarrow> string" where
  "finalAction st =
     the (orElse (orElse (opt action_of (proposalResult st)) (opt action_of (riskResult st)))
            (Some ''contact_customer''))"

text \<open>
  The end of \<^verbatim>\<open>executeTriage\<close>: the decision, the update of the run record, the event
  \<^verbatim>\<open>decision_finalized\<close> and the result. An exception here leaves the function.
\<close>

definition finalize ::
  "'e invocation \<Rightarrow> string list \<Rightarrow> 'e triage \<Rightarrow> (error + TriageResult) \<times> 'e triage" where
  "finalize call pl st =
     (let rk = finalRisk st;
          rs = finalReasons st;
          act = finalAction st;
          lat = clock (world st) - startTime call
      in case triageRun_update (invocation_runId call) rk rs (fallbackUsed st) lat st of
           (Some e, st1) \<Rightarrow> (Inl e, st1)
         | (None, st1) \<Rightarrow>
             (case streamEvent (streamCallback call)
                     (DecisionFinalized rk rs act lat (invocation_runId call)) st1 of
                (Some e, st2) \<Rightarrow> (Inl e, st2)
              | (None, st2) \<Rightarrow>
                  (Inr \<lparr>risk = rk, reasons = rs, recommendedAction = act, plan = pl,
                        result_steps = steps st2, result_fallbackUsed = fallbackUsed st2,
                        latencyMs = lat\<rparr>, st2)))"

text \<open>The state of the run when the loop starts.\<close>

definition initialTriage :: "string \<Rightarrow> string \<Rightarrow> alertRow \<Rightarrow> 'e sys \<Rightarrow> 'e triage" where
  "initialTriage rid aid a s =
     \<lparr>breaker = breaker s, world = world s, db = db s, stream = stream s,
      context = \<lparr>customerId = alert_customerId a, alertId = aid, runId = rid,
             transactions = Some [], customer = alert_customer a, alert = a,
             context_riskResult = None, context_complianceResult = None\<rparr>,
      steps = [], fallbackUsed = False, insightsResult = None, riskResult = None,
      kbResults = None, complianceResult = None, redactorResult = None,
      proposalResult = None\<rparr>"

definition sysOf :: "'e triage \<Rightarrow> 'e sys" where
  "sysOf st = \<lparr>breaker = breaker st, world = world st, db = db st, stream = stream st\<rparr>"

text \<open>
  \<^verbatim>\<open>executeTriage(alertId, streamCallback)\<close>; \<open>rid\<close> is the identifier that
  \<^verbatim>\<open>nanoid()\<close> returns and \<open>jit\<close> the random delays of the retries.
\<close>

definition executeTriage ::
  "'e registry \<Rightarrow> (string \<Rightarrow> nat \<Rightarrow> int) \<Rightarrow> string \<Rightarrow> string \<Rightarrow> callback option \<Rightarrow> 'e sys
     \<Rightarrow> (error + TriageResult) \<times> 'e sys" where
  "executeTriage reg jit rid aid callback s =
     (let call = \<lparr>tools = reg, streamCallback = callback, jitter = jit,
                 startTime = clock (world s), invocation_runId = rid\<rparr>
      in case alert_findUnique aid s of
           (Inl e, s1) \<Rightarrow> (Inl e, s1)
         | (Inr None, s1) \<Rightarrow> (Inl (Error ''Alert not found''), s1)
         | (Inr (Some a), s1) \<Rightarrow>
             (case triageRun_create rid aid s1 of
                (Some e, s2) \<Rightarrow> (Inl e, s2)
              | (None, s2) \<Rightarrow>
                  (case streamEvent callback (PlanBuilt defaultPlan rid)
                          (initialTriage rid aid a s2) of
                     (Some e, st) \<Rightarrow> (Inl e, sysOf st)
                   | (None, st) \<Rightarrow>
                       (case finalize call defaultPlan (runSteps call defaultPlan st) of
                          (r, st') \<Rightarrow> (r, sysOf st')))))"

subsection \<open>The route GET /:runId/stream\<close>

text \<open>The callback of the route: \<^verbatim>\<open>res.write\<close> of the event.\<close>

definition sseCallback :: callback where
  "sseCallback ev written = Inr (written @ [ev])"

text \<open>
  The handler of the route, for the \<^verbatim>\<open>runId\<close> of the path and the \<^verbatim>\<open>alertId\<close> of the
  query (absent, or a string); the response starts empty. The result is the state when
  \<^verbatim>\<open>res.end()\<close> is called; its \<open>stream\<close> is what the client has received.
\<close>

definition streamRoute ::
  "'e registry \<Rightarrow> (string \<Rightarrow> nat \<Rightarrow> int) \<Rightarrow> string \<Rightarrow> string \<Rightarrow> string option \<Rightarrow> 'e sys \<Rightarrow> 'e sys" where
  "streamRoute reg jit rid pathRunId queryAlertId s =
     (let s0 = s\<lparr>stream := stream s @ [Connected pathRunId]\<rparr>
      in case orElse queryAlertId None of
           None \<Rightarrow> s0\<lparr>stream := stream s0 @ [ErrorEvent ''Missing alertId'']\<rparr>
         | Some aid \<Rightarrow>
             (case executeTriage reg jit rid aid (Some sseCallback) s0 of
                (Inr result, s1) \<Rightarrow> s1\<lparr>stream := stream s1 @ [Completed]\<rparr>
              | (Inl e, s1) \<Rightarrow> s1\<lparr>stream := stream s1 @ [ErrorEvent (message e)]\<rparr>))"

subsection \<open>Notions used in the statements about the orchestrator\<close>

text \<open>The callback, if there is one, takes the event without throwing.\<close>

definition accepts :: "callback option \<Rightarrow> event \<Rightarrow> event list \<Rightarrow> bool" where
  "accepts callback ev written =
     (case callback of
        None \<Rightarrow> True
      | Some f \<Rightarrow> (case f ev written of Inl e \<Rightarrow> False | Inr written' \<Rightarrow> True))"

text \<open>The events that \<^verbatim>\<open>executeTriage\<close> emits outside the \<^verbatim>\<open>try\<close> statement.\<close>

fun topLevel :: "event \<Rightarrow> bool" where
  "topLevel (PlanBuilt pl rid) = True"
| "topLevel (DecisionFinalized rk rs act lat rid) = True"
| "topLevel _ = False"

text \<open>The budget check at the top of the \<^verbatim>\<open>try\<close> block.\<close>

definition budgetExceeded :: "'e invocation \<Rightarrow> 'e triage \<Rightarrow> bool" where
  "budgetExceeded call st = (clock (world st) - startTime call > flowBudget)"

text \<open>
  One iteration of the loop for a step whose tool is registered: whether the loop goes on,
  and the state. The loop is this iteration repeated (lemma \<open>runSteps_Cons\<close>).
\<close>

definition iteration ::
  "'e invocation \<Rightarrow> (AgentContext, 'e, payload) tool \<Rightarrow> string \<Rightarrow> 'e triage \<Rightarrow> bool \<times> 'e triage" where
  "iteration call tool stp st =
     (case tryBlock call tool stp (clock (world st)) st of
        (Break, st') \<Rightarrow> (False, st')
      | (Normal, st') \<Rightarrow> (True, st')
      | (Threw e, st') \<Rightarrow> (True, catchBlock stp (clock (world st)) e st'))"



text \<open>The first step recorded under a name.\<close>

definition firstStep :: "string \<Rightarrow> AgentStep list \<Rightarrow> AgentStep option" where
  "firstStep stp xs = find (\<lambda>x. step x = stp) xs"

text \<open>Tools for examples: one that answers after some milliseconds.\<close>

definition answering ::
  "payload \<Rightarrow> int \<Rightarrow> AgentContext \<Rightarrow> 'e world \<Rightarrow> payload settled \<times> 'e world" where
  "answering p ms c w = (Resolved p, w\<lparr>clock := clock w + ms\<rparr>)"

text \<open>The result that \<^verbatim>\<open>executeTriage\<close> returns from a state of the run.\<close>

definition decisionOf :: "'e invocation \<Rightarrow> string list \<Rightarrow> 'e triage \<Rightarrow> TriageResult" where
  "decisionOf call pl st =
     \<lparr>risk = finalRisk st, reasons = finalReasons st, recommendedAction = finalAction st,
      plan = pl, result_steps = steps st, result_fallbackUsed = fallbackUsed st,
      latencyMs = clock (world st) - startTime call\<rparr>"

definition decisionEvent :: "'e invocation \<Rightarrow> 'e triage \<Rightarrow> event" where
  "decisionEvent call st =
     DecisionFinalized (finalRisk st) (finalReasons st) (finalAction st)
       (clock (world st) - startTime call) (invocation_runId call)"

text \<open>The run record in its terminal state.\<close>

definition terminalRuns :: "'e invocation \<Rightarrow> 'e triage \<Rightarrow> runRow list" where
  "terminalRuns call st =
     map (\<lambda>r. if run_id r = invocation_runId call
               then r\<lparr>endedAt := Some (clock (world st)), run_risk := Some (finalRisk st),
                      run_reasons := Some (finalReasons st),
                      run_fallbackUsed := Some (fallbackUsed st),
                      run_latencyMs := Some (clock (world st) - startTime call)\<rparr>
               else r) (triageRuns (db st))"

text \<open>A run for examples: an alert, agents that answer in time, a database that
  accepts every operation in 5 ms, and the callback of the route.\<close>

definition demoAlert :: alertRow where
  "demoAlert = \<lparr>alert_customerId = ''cust1'', alert_customer = Some JNull, alert_fields = JNull\<rparr>"

definition demoAgents :: "unit agents" where
  "demoAgents =
     \<lparr>DataAccessAgent_run = answering (DataAccessData (Some JNull) (Some [])) 40,
      InsightsAgent_run = answering (InsightsData ''normal'') 10,
      FraudAgent_run = answering (RiskData ''high'' [''velocity''] ''freeze_card'') 30,
      KnowledgeBaseAgent_run = answering (KbData [''Disputes'']) 20,
      ComplianceAgent_run = answering (ComplianceData False) 10,
      RedactorAgent_run = answering (RedactorData False) 10,
      SummarizerAgent_run = answering (OtherData JNull) 10\<rparr>"

definition demoDb :: database where
  "demoDb = \<lparr>alerts = [''alert1'' \<mapsto> demoAlert], triageRuns = [], agentTraces = [],
             rejects = (\<lambda>_. None), latency = (\<lambda>_. 5)\<rparr>"

definition demoSys :: "unit sys" where
  "demoSys = \<lparr>breaker = Map.empty, world = \<lparr>clock = 0, ext = ()\<rparr>, db = demoDb, stream = []\<rparr>"



text \<open>
  Two facts about a run in progress. The first: if a step \<open>riskSignals\<close> has been recorded
  and the first such step failed, then the fallback flag is set and the risk result is
  absent or is the fallback value; if none has been recorded there is no risk result. The
  second: a proposal, if there is one, names one of the defined actions.
\<close>

definition fallbackHolds :: "'e triage \<Rightarrow> bool" where
  "fallbackHolds st =
     (case firstStep ''riskSignals'' (steps st) of
        None \<Rightarrow> riskResult st = None
      | Some x \<Rightarrow>
          step_ok x
          \<or> (fallbackUsed st \<and> (riskResult st = None \<or> riskResult st = Some getFallbackRisk)))"

definition proposalValid :: "'e triage \<Rightarrow> bool" where
  "proposalValid st =
     (case proposalResult st of
        None \<Rightarrow> True
      | Some p \<Rightarrow> (case action_of p of None \<Rightarrow> False | Some a \<Rightarrow> a \<in> set definedActions))"

text \<open>
  Faults for examples: a callback that throws on one event and writes the others, and a
  database that refuses the trace rows of one step.
\<close>

definition throwingOn :: "event \<Rightarrow> callback" where
  "throwingOn bad ev written =
     (if ev = bad then Inl (Error ''write after end'') else Inr (written @ [ev]))"

definition rejectingTraceOf :: "string \<Rightarrow> dbOp \<Rightarrow> error option" where
  "rejectingTraceOf stp operation =
     (case operation of
        AgentTraceCreate row \<Rightarrow>
          if trace_step row = stp then Some (Error ''write failed'') else None
      | _ \<Rightarrow> None)"

section \<open>Circuit breaker: lemmas\<close>

lemma getState_noFailures:
  "noFailures m tn \<Longrightarrow> failures (fst (getState m tn)) = 0 \<and> \<not> isOpen (fst (getState m tn))"
  by (simp add: noFailures_def getState_def initialState_def split: option.splits)

lemma failed_call_entry:
  assumes "\<not> isOpen (fst (getState m tn))" "fst (fn w) = Inl e"
  shows "statesAfter (CircuitBreaker_execute tn fn m w) tn =
           Some ((fst (getState m tn))
                   \<lparr>failures := failures (fst (getState m tn)) + 1,
                    lastFailureTime := clock (snd (fn w)),
                    isOpen := (failures (fst (getState m tn)) + 1 \<ge> failureThreshold)\<rparr>)"
    and "fst (CircuitBreaker_execute tn fn m w) = Inl e"
    and "worldAfter (CircuitBreaker_execute tn fn m w) = snd (fn w)"
  using assms
  by (cases "fn w"; cases "m tn";
      simp add: CircuitBreaker_execute_def statesAfter_def worldAfter_def getState_def onFailure_def
        Let_def initialState_def)+

lemma execute_blocked_getState:
  assumes "isOpen (fst (getState m tn))"
    and "clock w - lastFailureTime (fst (getState m tn)) < openDuration"
  shows "CircuitBreaker_execute tn fn m w = (Inl (circuitOpenError tn), m, w)"
  using assms
  by (cases "m tn") (simp_all add: CircuitBreaker_execute_def getState_def initialState_def)



text \<open>
  Claim C5, as the code has it. When the circuit of a tool is open and
  \<open>now - lastFailureTime \<ge> 30000\<close>, the call replaces the tool's entry by the initial one
  (no failures, closed) and then attempts the wrapped function as any call on a closed
  circuit does. When the attempt fails, the entry afterwards counts one failure and the
  circuit is closed; when it succeeds, the entry is the initial one.
\<close>

theorem cooldown_elapsed_resets_then_attempts:
  fixes fn :: "('e, 'a) async"
  assumes opened: "isOpen (fst (getState m tn))"
    and elapsed: "clock w - lastFailureTime (fst (getState m tn)) \<ge> openDuration"
  shows "resetCircuit m tn tn = Some \<lparr>failures = 0, lastFailureTime = 0, isOpen = False\<rparr>
       \<and> CircuitBreaker_execute tn fn m w =
           (case fn w of
              (Inr result, w') \<Rightarrow> (Inr result, onSuccess (resetCircuit m tn) tn, w')
            | (Inl err, w') \<Rightarrow> (Inl err, onFailure (resetCircuit m tn) tn (clock w'), w'))
       \<and> (\<forall>err. fst (fn w) = Inl err \<longrightarrow>
             statesAfter (CircuitBreaker_execute tn fn m w) tn =
               Some \<lparr>failures = 1, lastFailureTime = clock (snd (fn w)), isOpen = False\<rparr>)
       \<and> (\<forall>result. fst (fn w) = Inr result \<longrightarrow>
             statesAfter (CircuitBreaker_execute tn fn m w) tn =
               Some \<lparr>failures = 0, lastFailureTime = 0, isOpen = False\<rparr>)"
proof -
  obtain s where s: "m tn = Some s" "isOpen s"
    using opened by (cases "m tn") (simp_all add: getState_def initialState_def)
  have late: "\<not> clock w - lastFailureTime s < openDuration"
    using elapsed s by (simp add: getState_def)
  have ex: "CircuitBreaker_execute tn fn m w =
           (case fn w of
              (Inr result, w') \<Rightarrow> (Inr result, onSuccess (resetCircuit m tn) tn, w')
            | (Inl err, w') \<Rightarrow> (Inl err, onFailure (resetCircuit m tn) tn (clock w'), w'))"
    using s late by (simp add: CircuitBreaker_execute_def getState_def Let_def)
  have fail: "onFailure (resetCircuit m tn) tn now tn
                = Some \<lparr>failures = 1, lastFailureTime = now, isOpen = False\<rparr>" for now
    by (simp add: onFailure_def resetCircuit_def getState_def initialState_def failureThreshold_def)
  have succ: "onSuccess (resetCircuit m tn) tn tn
                = Some \<lparr>failures = 0, lastFailureTime = 0, isOpen = False\<rparr>"
    by (simp add: onSuccess_def resetCircuit_def getState_def initialState_def)
  show ?thesis
    using ex fail succ
    by (cases "fn w") (auto simp: statesAfter_def resetCircuit_def initialState_def split: sum.splits)
qed

theorem cooldown_elapsed_resets_then_attempts_witness:
  "let m = [''FraudAgent'' \<mapsto> \<lparr>failures = 3, lastFailureTime = 1000, isOpen = True\<rparr>];
       fn = (failingSpy (Error ''boom'') :: (nat, unit) async);
       r = CircuitBreaker_execute ''FraudAgent'' fn m \<lparr>clock = 31000, ext = 0\<rparr>
   in isOpen (fst (getState m ''FraudAgent''))
      \<and> 31000 - lastFailureTime (fst (getState m ''FraudAgent'')) \<ge> openDuration
      \<and> fst r = Inl (Error ''boom'')
      \<and> ext (worldAfter r) = 1
      \<and> statesAfter r ''FraudAgent'' = Some \<lparr>failures = 1, lastFailureTime = 31000, isOpen = False\<rparr>"
  using cooldown_elapsed_resets_then_attempts
    [of "[''FraudAgent'' \<mapsto> \<lparr>failures = 3, lastFailureTime = 1000, isOpen = True\<rparr>]"
        "''FraudAgent''" "\<lparr>clock = 31000, ext = 0\<rparr>"
        "failingSpy (Error ''boom'') :: (nat, unit) async"]
  by (simp add: Let_def getState_def openDuration_def failingSpy_def worldAfter_def
        CircuitBreaker_execute_def statesAfter_def onFailure_def resetCircuit_def initialState_def
        failureThreshold_def)

text \<open>
  Claim C5 as stated fails: the circuit of \<open>FraudAgent\<close> opened at time 1000; the call at
  time 31000 is attempted and fails, and the circuit is not open afterwards.
\<close>

theorem failed_attempt_after_cooldown_counterexample:
  "isOpen (fst (getState [''FraudAgent'' \<mapsto> \<lparr>failures = 3, lastFailureTime = 1000, isOpen = True\<rparr>] ''FraudAgent''))
   \<and> (31000::int) - 1000 \<ge> openDuration
   \<and> fst (CircuitBreaker_execute ''FraudAgent'' (failingSpy (Error ''boom'') :: (nat, unit) async)
            [''FraudAgent'' \<mapsto> \<lparr>failures = 3, lastFailureTime = 1000, isOpen = True\<rparr>]
            \<lparr>clock = 31000, ext = 0\<rparr>) = Inl (Error ''boom'')
   \<and> \<not> CircuitBreaker_isOpen
         (statesAfter (CircuitBreaker_execute ''FraudAgent'' (failingSpy (Error ''boom'') :: (nat, unit) async)
            [''FraudAgent'' \<mapsto> \<lparr>failures = 3, lastFailureTime = 1000, isOpen = True\<rparr>]
            \<lparr>clock = 31000, ext = 0\<rparr>)) ''FraudAgent''"
  by (simp add: getState_def openDuration_def failingSpy_def CircuitBreaker_isOpen_def
        CircuitBreaker_execute_def statesAfter_def onFailure_def resetCircuit_def initialState_def
        failureThreshold_def)

section \<open>BaseTool: lemmas\<close>

lemma execute_not_blocked:
  assumes "\<not> blocked m tn (clock w)"
  shows "fst (CircuitBreaker_execute tn fn m w) = fst (fn w)"
    and "worldAfter (CircuitBreaker_execute tn fn m w) = snd (fn w)"
proof -
  obtain s m1 where g: "getState m tn = (s, m1)"
    by (cases "getState m tn")
  obtain x w' where f: "fn w = (x, w')"
    by (cases "fn w")
  have nb: "(isOpen s \<and> clock w - lastFailureTime s < openDuration) = False"
    using assms g by (simp add: blocked_def)
  show "fst (CircuitBreaker_execute tn fn m w) = fst (fn w)"
    using g f by (cases x) (simp_all add: CircuitBreaker_execute_def Let_def nb)
  show "worldAfter (CircuitBreaker_execute tn fn m w) = snd (fn w)"
    using g f by (cases x) (simp_all add: CircuitBreaker_execute_def Let_def worldAfter_def nb)
qed

lemma executeWithTimeout_error:
  assumes "fst (executeWithTimeout t c w) = Inl e"
  shows "e = timeoutError \<or> (\<exists>w'. run t c w = (Rejected e, w'))"
  using assms
  by (auto simp: executeWithTimeout_def Let_def split: prod.splits settled.splits if_splits)

lemma retryLoop_error:
  "fst (retryLoop t jit ctx attempt w) = Inl e \<Longrightarrow>
     e = timeoutError \<or> (\<exists>w0 w1. run t ctx w0 = (Rejected e, w1))"
proof (induction t jit ctx attempt w rule: retryLoop.induct)
  case (1 t jit ctx attempt w)
  note unfold = retryLoop.simps [of t jit ctx attempt w]
  show ?case
  proof (cases "fst (executeWithTimeout t ctx w)")
    case (Inr d)
    with "1.prems" show ?thesis by (simp add: unfold Let_def)
  next
    case (Inl err)
    show ?thesis
    proof (cases "attempt < maxRetries t")
      case True
      with Inl "1.prems" have "fst (retryLoop t jit ctx (attempt + 1)
          (sleep (retryDelay t jit attempt) (snd (executeWithTimeout t ctx w)))) = Inl e"
        by (simp add: unfold Let_def)
      with "1.IH" [OF refl Inl True] show ?thesis by simp
    next
      case False
      with Inl "1.prems" have "err = e" by (simp add: unfold Let_def)
      with Inl executeWithTimeout_error [of t ctx w e] show ?thesis by blast
    qed
  qed
qed

text \<open>
  Claim C3. \<^verbatim>\<open>BaseTool.execute\<close> returns a \<^verbatim>\<open>ToolResult\<close> for every tool, context,
  breaker state and world, and \<open>duration\<close> is the time elapsed during the call. A result
  with \<open>ok\<close> carries data and no error. A result without \<open>ok\<close> carries no data and
  an error message, which is the message of the open circuit, the message of the timeout,
  or the message of an error that \<^verbatim>\<open>run\<close> threw. When the circuit refuses the call the
  result is the circuit's message with duration 0 and nothing else changes; otherwise the
  result is the outcome of \<^verbatim>\<open>executeWithRetry\<close>: its value on success, the message of
  its last error when all attempts are exhausted.
\<close>

theorem BaseTool_execute_never_throws:
  "\<exists>r m' w'. BaseTool_execute t jit ctx m w = (r, m', w')
     \<and> duration r = clock w' - clock w
     \<and> (ok r \<longrightarrow> (\<exists>d. data r = Some d) \<and> error r = None)
     \<and> (\<not> ok r \<longrightarrow> data r = None
           \<and> (error r = Some (message (circuitOpenError (name t)))
              \<or> error r = Some (message timeoutError)
              \<or> (\<exists>e w0 w1. run t ctx w0 = (Rejected e, w1) \<and> error r = Some (message e))))
     \<and> (blocked m (name t) (clock w) \<longrightarrow>
           r = \<lparr>ok = False, data = None,
                error = Some (''Circuit breaker open for '' @ name t), duration = 0\<rparr>
           \<and> m' = m \<and> w' = w)
     \<and> (\<not> blocked m (name t) (clock w) \<longrightarrow>
           w' = snd (executeWithRetry t jit ctx w)
           \<and> (\<forall>d. fst (executeWithRetry t jit ctx w) = Inr d \<longrightarrow>
                 r = \<lparr>ok = True, data = Some d, error = None, duration = clock w' - clock w\<rparr>)
           \<and> (\<forall>e. fst (executeWithRetry t jit ctx w) = Inl e \<longrightarrow>
                 r = \<lparr>ok = False, data = None, error = Some (message e),
                      duration = clock w' - clock w\<rparr>))"
proof -
  let ?fn = "executeWithRetry t jit ctx"
  let ?B = "blocked m (name t) (clock w)"
  obtain r m' w' where bt: "BaseTool_execute t jit ctx m w = (r, m', w')"
    by (cases "BaseTool_execute t jit ctx m w") auto
  obtain x where cb: "CircuitBreaker_execute (name t) ?fn m w = (x, m', w')"
    using bt by (auto simp: BaseTool_execute_def Let_def split: prod.splits sum.splits)
  have r: "r = (case x of
                  Inr d \<Rightarrow> \<lparr>ok = True, data = Some d, error = None, duration = clock w' - clock w\<rparr>
                | Inl e \<Rightarrow> \<lparr>ok = False, data = None, error = Some (message e),
                            duration = clock w' - clock w\<rparr>)"
    using bt cb by (cases x) (simp_all add: BaseTool_execute_def)
  have dur: "duration r = clock w' - clock w"
    using r by (cases x) simp_all
  have good: "ok r \<longrightarrow> (\<exists>d. data r = Some d) \<and> error r = None"
    using r by (cases x) simp_all
  have when_blocked: "x = Inl (circuitOpenError (name t)) \<and> m' = m \<and> w' = w" if ?B
    using that cb by (simp add: blocked_def execute_blocked_getState)
  have when_free: "x = fst (?fn w) \<and> w' = snd (?fn w)" if "\<not> ?B"
    using execute_not_blocked [OF that, of ?fn] cb by (simp add: worldAfter_def)
  have source: "e = circuitOpenError (name t) \<or> e = timeoutError
                  \<or> (\<exists>w0 w1. run t ctx w0 = (Rejected e, w1))" if "x = Inl e" for e
  proof (cases ?B)
    case True
    with when_blocked that show ?thesis by simp
  next
    case False
    with when_free that have "fst (retryLoop t jit ctx 0 w) = Inl e"
      by (simp add: executeWithRetry_def)
    from retryLoop_error [OF this] show ?thesis by blast
  qed
  have bad: "\<not> ok r \<longrightarrow> data r = None
           \<and> (error r = Some (message (circuitOpenError (name t)))
              \<or> error r = Some (message timeoutError)
              \<or> (\<exists>e w0 w1. run t ctx w0 = (Rejected e, w1) \<and> error r = Some (message e)))"
  proof (cases x)
    case (Inr d)
    with r show ?thesis by simp
  next
    case (Inl e)
    with r have re: "data r = None" "error r = Some (message e)" by simp_all
    from source [OF Inl] re show ?thesis by blast
  qed
  have c4: "?B \<longrightarrow>
           r = \<lparr>ok = False, data = None,
                error = Some (''Circuit breaker open for '' @ name t), duration = 0\<rparr>
           \<and> m' = m \<and> w' = w"
    using when_blocked r by (simp add: circuitOpenError_def)
  have c5: "\<not> ?B \<longrightarrow>
           w' = snd (?fn w)
           \<and> (\<forall>d. fst (?fn w) = Inr d \<longrightarrow>
                 r = \<lparr>ok = True, data = Some d, error = None, duration = clock w' - clock w\<rparr>)
           \<and> (\<forall>e. fst (?fn w) = Inl e \<longrightarrow>
                 r = \<lparr>ok = False, data = None, error = Some (message e),
                      duration = clock w' - clock w\<rparr>)"
  proof
    assume nb: "\<not> ?B"
    from when_free [OF nb] have x: "x = fst (?fn w)" and w: "w' = snd (?fn w)" by simp_all
    have p1: "\<forall>d. fst (?fn w) = Inr d \<longrightarrow>
                 r = \<lparr>ok = True, data = Some d, error = None, duration = clock w' - clock w\<rparr>"
      using r x by simp
    have p2: "\<forall>e. fst (?fn w) = Inl e \<longrightarrow>
                 r = \<lparr>ok = False, data = None, error = Some (message e),
                      duration = clock w' - clock w\<rparr>"
      using r x by simp
    show "w' = snd (?fn w)
           \<and> (\<forall>d. fst (?fn w) = Inr d \<longrightarrow>
                 r = \<lparr>ok = True, data = Some d, error = None, duration = clock w' - clock w\<rparr>)
           \<and> (\<forall>e. fst (?fn w) = Inl e \<longrightarrow>
                 r = \<lparr>ok = False, data = None, error = Some (message e),
                      duration = clock w' - clock w\<rparr>)"
      by (rule conjI [OF w conjI [OF p1 p2]])
  qed
  have all: "BaseTool_execute t jit ctx m w = (r, m', w') \<and> duration r = clock w' - clock w
     \<and> (ok r \<longrightarrow> (\<exists>d. data r = Some d) \<and> error r = None)
     \<and> (\<not> ok r \<longrightarrow> data r = None
           \<and> (error r = Some (message (circuitOpenError (name t)))
              \<or> error r = Some (message timeoutError)
              \<or> (\<exists>e w0 w1. run t ctx w0 = (Rejected e, w1) \<and> error r = Some (message e))))
     \<and> (?B \<longrightarrow>
           r = \<lparr>ok = False, data = None,
                error = Some (''Circuit breaker open for '' @ name t), duration = 0\<rparr>
           \<and> m' = m \<and> w' = w)
     \<and> (\<not> ?B \<longrightarrow>
           w' = snd (?fn w)
           \<and> (\<forall>d. fst (?fn w) = Inr d \<longrightarrow>
                 r = \<lparr>ok = True, data = Some d, error = None, duration = clock w' - clock w\<rparr>)
           \<and> (\<forall>e. fst (?fn w) = Inl e \<longrightarrow>
                 r = \<lparr>ok = False, data = None, error = Some (message e),
                      duration = clock w' - clock w\<rparr>))"
    by (rule conjI [OF bt conjI [OF dur conjI [OF good conjI [OF bad conjI [OF c4 c5]]]]])
  show ?thesis
    by (rule exI [of _ r], rule exI [of _ m'], rule exI [of _ w']) (rule all)
qed

text \<open>
  A tool whose \<^verbatim>\<open>run\<close> never settles: three attempts of 1000 ms each time out, with
  delays of 150 + 25 and 400 + 25 ms between them.
\<close>

theorem BaseTool_execute_never_throws_witness:
  "\<not> blocked Map.empty ''FraudAgent'' 0
   \<and> fst (executeWithRetry (BaseTool ''FraudAgent'' hangingRun) (\<lambda>_. 25) ()
             \<lparr>clock = 0, ext = ()\<rparr> :: (error + unit) \<times> unit world)
       = Inl (Error ''Tool timeout exceeded'')
   \<and> fst (BaseTool_execute (BaseTool ''FraudAgent'' hangingRun :: (unit, unit, unit) tool)
             (\<lambda>_. 25) () Map.empty \<lparr>clock = 0, ext = ()\<rparr>)
       = \<lparr>ok = False, data = None, error = Some ''Tool timeout exceeded'', duration = 3600\<rparr>"
  using BaseTool_execute_never_throws
    [of "BaseTool ''FraudAgent'' hangingRun :: (unit, unit, unit) tool" "\<lambda>_. 25" "()" Map.empty
        "\<lparr>clock = 0, ext = ()\<rparr>"]
  by (simp add: blocked_def BaseTool_execute_def CircuitBreaker_execute_def executeWithRetry_def
        retryLoop.simps executeWithTimeout_def BaseTool_def sleep_def retryDelay_def hangingRun_def
        getState_def initialState_def onFailure_def Let_def failureThreshold_def timeoutError_def)

lemma executeWithTimeout_counts:
  assumes "run t = countingRun r"
  shows "invocations (snd (executeWithTimeout t ctx w)) = Suc (invocations w)"
  using assms
  by (simp add: executeWithTimeout_def countingRun_def invocations_def Let_def
        split: prod.splits settled.splits)

lemma sleep_invocations: "invocations (sleep ms w) = invocations w"
  by (simp add: sleep_def invocations_def)

lemma retryLoop_counts:
  "run t = countingRun r \<Longrightarrow>
   fst (retryLoop t jit ctx attempt w) = Inl e \<Longrightarrow> attempt \<le> maxRetries t \<Longrightarrow>
     invocations (snd (retryLoop t jit ctx attempt w))
       = invocations w + (maxRetries t + 1 - attempt)"
proof (induction t jit ctx attempt w rule: retryLoop.induct)
  case (1 t jit ctx attempt w)
  note unfold = retryLoop.simps [of t jit ctx attempt w]
  note one = executeWithTimeout_counts [OF "1.prems"(1), of ctx w]
  show ?case
  proof (cases "fst (executeWithTimeout t ctx w)")
    case (Inr d)
    with "1.prems" show ?thesis by (simp add: unfold Let_def)
  next
    case (Inl err)
    show ?thesis
    proof (cases "attempt < maxRetries t")
      case True
      let ?w = "sleep (retryDelay t jit attempt) (snd (executeWithTimeout t ctx w))"
      have eq: "retryLoop t jit ctx attempt w = retryLoop t jit ctx (attempt + 1) ?w"
        using Inl True by (simp add: unfold Let_def)
      have a: "invocations ?w = Suc (invocations w)"
        using one by (simp add: sleep_invocations)
      have b: "invocations (snd (retryLoop t jit ctx (attempt + 1) ?w))
              = invocations ?w + (maxRetries t + 1 - (attempt + 1))"
        using "1.IH" [OF refl Inl True] "1.prems" eq True by simp
      show ?thesis
        unfolding eq b a using True by arith
    next
      case False
      with Inl have "retryLoop t jit ctx attempt w = (Inl err, snd (executeWithTimeout t ctx w))"
        by (simp add: unfold Let_def)
      with one False "1.prems" show ?thesis by simp
    qed
  qed
qed

lemma BaseTool_execute_parts:
  "statesAfter (BaseTool_execute t jit ctx m w)
     = statesAfter (CircuitBreaker_execute (name t) (executeWithRetry t jit ctx) m w)"
  "worldAfter (BaseTool_execute t jit ctx m w)
     = worldAfter (CircuitBreaker_execute (name t) (executeWithRetry t jit ctx) m w)"
  "ok (fst (BaseTool_execute t jit ctx m w))
     = (\<exists>d. fst (CircuitBreaker_execute (name t) (executeWithRetry t jit ctx) m w) = Inr d)"
  by (cases "CircuitBreaker_execute (name t) (executeWithRetry t jit ctx) m w";
      cases "fst (CircuitBreaker_execute (name t) (executeWithRetry t jit ctx) m w)";
      simp add: BaseTool_execute_def statesAfter_def worldAfter_def)+

lemma failed_BaseTool_execute:
  fixes t :: "('c, nat \<times> 'e, 'd) tool"
  assumes spy: "run t = countingRun r"
    and closed: "\<not> isOpen (fst (getState m (name t)))"
    and failed: "\<not> ok (fst (BaseTool_execute t jit ctx m w))"
  shows "statesAfter (BaseTool_execute t jit ctx m w) (name t) =
           Some ((fst (getState m (name t)))
                   \<lparr>failures := failures (fst (getState m (name t))) + 1,
                    lastFailureTime := clock (worldAfter (BaseTool_execute t jit ctx m w)),
                    isOpen := (failures (fst (getState m (name t))) + 1 \<ge> failureThreshold)\<rparr>)"
    and "invocations (worldAfter (BaseTool_execute t jit ctx m w))
           = invocations w + (maxRetries t + 1)"
proof -
  let ?fn = "executeWithRetry t jit ctx"
  have nb: "\<not> blocked m (name t) (clock w)"
    using closed by (simp add: blocked_def)
  obtain e where e: "fst (?fn w) = Inl e"
    using failed execute_not_blocked(1) [OF nb, of ?fn]
    by (cases "fst (?fn w)") (simp_all add: BaseTool_execute_parts)
  have wa: "worldAfter (CircuitBreaker_execute (name t) ?fn m w) = snd (?fn w)"
    using execute_not_blocked(2) [OF nb, of ?fn] .
  show "statesAfter (BaseTool_execute t jit ctx m w) (name t) =
           Some ((fst (getState m (name t)))
                   \<lparr>failures := failures (fst (getState m (name t))) + 1,
                    lastFailureTime := clock (worldAfter (BaseTool_execute t jit ctx m w)),
                    isOpen := (failures (fst (getState m (name t))) + 1 \<ge> failureThreshold)\<rparr>)"
    using failed_call_entry(1) [of m "name t" ?fn w, OF closed e]
    by (simp add: BaseTool_execute_parts wa)
  have cnt: "invocations (snd (?fn w)) = invocations w + (maxRetries t + 1)"
    using retryLoop_counts [OF spy, of jit ctx 0 w e] e
    by (simp add: executeWithRetry_def)
  show "invocations (worldAfter (BaseTool_execute t jit ctx m w))
           = invocations w + (maxRetries t + 1)"
    using cnt by (simp add: BaseTool_execute_parts wa)
qed

text \<open>
  Claim C10. The run method of a tool with two retries is observed by a counter. The
  counter of consecutive failures of the tool stands at zero, and \<^verbatim>\<open>BaseTool.execute\<close>
  is called three times and fails each time (between the calls the clock and the entries
  of other tools may change). Then each call invokes \<^verbatim>\<open>run\<close> three times and adds
  one to the breaker's failure counter: after the first call the counter is 1 and after
  the second 2, with the circuit closed; after the third it is 3 and the circuit is open,
  \<^verbatim>\<open>run\<close> having been invoked 9 times.
\<close>

theorem breaker_counts_one_failure_per_execute:
  fixes t :: "('c, nat \<times> 'e, 'd) tool"
  assumes spy: "run t = countingRun r"
    and retries: "maxRetries t = 2"
    and start: "noFailures m0 (name t)"
    and c1: "\<not> ok (fst (BaseTool_execute t j1 ctx1 m0 w1))"
    and m1: "m1 (name t) = statesAfter (BaseTool_execute t j1 ctx1 m0 w1) (name t)"
    and n2: "invocations w2 = invocations (worldAfter (BaseTool_execute t j1 ctx1 m0 w1))"
    and c2: "\<not> ok (fst (BaseTool_execute t j2 ctx2 m1 w2))"
    and m2: "m2 (name t) = statesAfter (BaseTool_execute t j2 ctx2 m1 w2) (name t)"
    and n3: "invocations w3 = invocations (worldAfter (BaseTool_execute t j2 ctx2 m1 w2))"
    and c3: "\<not> ok (fst (BaseTool_execute t j3 ctx3 m2 w3))"
    and m3: "m3 (name t) = statesAfter (BaseTool_execute t j3 ctx3 m2 w3) (name t)"
  shows "failures (fst (getState m1 (name t))) = 1 \<and> \<not> CircuitBreaker_isOpen m1 (name t)
       \<and> invocations (worldAfter (BaseTool_execute t j1 ctx1 m0 w1)) = invocations w1 + 3
       \<and> failures (fst (getState m2 (name t))) = 2 \<and> \<not> CircuitBreaker_isOpen m2 (name t)
       \<and> invocations (worldAfter (BaseTool_execute t j2 ctx2 m1 w2)) = invocations w1 + 6
       \<and> failures (fst (getState m3 (name t))) = 3 \<and> CircuitBreaker_isOpen m3 (name t)
       \<and> invocations (worldAfter (BaseTool_execute t j3 ctx3 m2 w3)) = invocations w1 + 9"
proof -
  let ?tn = "name t"
  have s0: "failures (fst (getState m0 ?tn)) = 0" "\<not> isOpen (fst (getState m0 ?tn))"
    using getState_noFailures [OF start] by simp_all
  note r1 = failed_BaseTool_execute [OF spy s0(2) c1]
  have e1: "m1 ?tn = Some ((fst (getState m0 ?tn))\<lparr>failures := 1,
      lastFailureTime := clock (worldAfter (BaseTool_execute t j1 ctx1 m0 w1)), isOpen := False\<rparr>)"
    using r1(1) s0 m1 by (simp add: failureThreshold_def)
  have s1: "failures (fst (getState m1 ?tn)) = 1" "\<not> isOpen (fst (getState m1 ?tn))"
    using e1 by (simp_all add: getState_def)
  note r2 = failed_BaseTool_execute [OF spy s1(2) c2]
  have e2: "m2 ?tn = Some ((fst (getState m1 ?tn))\<lparr>failures := 2,
      lastFailureTime := clock (worldAfter (BaseTool_execute t j2 ctx2 m1 w2)), isOpen := False\<rparr>)"
    using r2(1) s1 m2 by (simp add: failureThreshold_def)
  have s2: "failures (fst (getState m2 ?tn)) = 2" "\<not> isOpen (fst (getState m2 ?tn))"
    using e2 by (simp_all add: getState_def)
  note r3 = failed_BaseTool_execute [OF spy s2(2) c3]
  have e3: "m3 ?tn = Some ((fst (getState m2 ?tn))\<lparr>failures := 3,
      lastFailureTime := clock (worldAfter (BaseTool_execute t j3 ctx3 m2 w3)), isOpen := True\<rparr>)"
    using r3(1) s2 m3 by (simp add: failureThreshold_def)
  have s3: "failures (fst (getState m3 ?tn)) = 3" "isOpen (fst (getState m3 ?tn))"
    using e3 by (simp_all add: getState_def)
  have n1: "invocations (worldAfter (BaseTool_execute t j1 ctx1 m0 w1)) = invocations w1 + 3"
    using r1(2) retries by simp
  have n2': "invocations (worldAfter (BaseTool_execute t j2 ctx2 m1 w2)) = invocations w1 + 6"
    using r2(2) retries n2 n1 by simp
  have n3': "invocations (worldAfter (BaseTool_execute t j3 ctx3 m2 w3)) = invocations w1 + 9"
    using r3(2) retries n3 n2' by simp
  show ?thesis
    using s1 s2 s3 n1 n2' n3' by (simp add: CircuitBreaker_isOpen_def)
qed

text \<open>A tool whose dependency refuses every connection, called three times in a row.\<close>

theorem breaker_counts_one_failure_per_execute_witness:
  "let t = (BaseTool ''FraudAgent'' (countingRun refusingRun) :: (unit, nat \<times> unit, unit) tool);
       r1 = BaseTool_execute t (\<lambda>_. 25) () Map.empty \<lparr>clock = 0, ext = (0, ())\<rparr>;
       r2 = BaseTool_execute t (\<lambda>_. 25) () (statesAfter r1) (worldAfter r1);
       r3 = BaseTool_execute t (\<lambda>_. 25) () (statesAfter r2) (worldAfter r2)
   in noFailures Map.empty (name t) \<and> maxRetries t = 2
      \<and> \<not> ok (fst r1) \<and> \<not> ok (fst r2) \<and> \<not> ok (fst r3)
      \<and> failures (fst (getState (statesAfter r1) ''FraudAgent'')) = 1
      \<and> invocations (worldAfter r1) = 3
      \<and> \<not> CircuitBreaker_isOpen (statesAfter r2) ''FraudAgent''
      \<and> CircuitBreaker_isOpen (statesAfter r3) ''FraudAgent''
      \<and> invocations (worldAfter r3) = 9"
proof -
  let ?t = "BaseTool ''FraudAgent'' (countingRun refusingRun) :: (unit, nat \<times> unit, unit) tool"
  let ?j = "\<lambda>_::nat. 25::int"
  let ?r1 = "BaseTool_execute ?t ?j () Map.empty \<lparr>clock = 0, ext = (0, ())\<rparr>"
  let ?r2 = "BaseTool_execute ?t ?j () (statesAfter ?r1) (worldAfter ?r1)"
  let ?r3 = "BaseTool_execute ?t ?j () (statesAfter ?r2) (worldAfter ?r2)"
  note defs = BaseTool_execute_def CircuitBreaker_execute_def executeWithRetry_def
    retryLoop.simps executeWithTimeout_def countingRun_def BaseTool_def sleep_def retryDelay_def
    refusingRun_def getState_def initialState_def onFailure_def Let_def failureThreshold_def
    statesAfter_def worldAfter_def
  have spy: "run ?t = countingRun refusingRun" and retries: "maxRetries ?t = 2"
    by (simp_all add: BaseTool_def)
  have start: "noFailures Map.empty (name ?t)"
    by (simp add: noFailures_def)
  have c1: "\<not> ok (fst ?r1)"
    by (simp add: defs)
  have c2: "\<not> ok (fst ?r2)"
    by (simp add: defs)
  have c3: "\<not> ok (fst ?r3)"
    by (simp add: defs)
  note T = breaker_counts_one_failure_per_execute
    [where ?m1.0 = "statesAfter ?r1" and ?m2.0 = "statesAfter ?r2" and ?m3.0 = "statesAfter ?r3",
     OF spy retries start c1 refl refl c2 refl refl c3 refl]
  show ?thesis
    using T start retries c1 c2 c3
    by (simp add: Let_def invocations_def BaseTool_def)
qed

section \<open>Rate limiter: lemmas\<close>

lemma healthy_stored [simp]: "healthy (stored r key b now) key' = healthy r key'"
  by (simp add: healthy_def stored_def)

lemma stored_stored [simp]: "stored (stored r key b now) key b' now' = stored r key b' now'"
  by (simp add: stored_def)

lemma get_stored:
  "healthy r key \<Longrightarrow>
   redis_get (stored r key b now) key now' = Inr (if now' < now + 60000 then Some b else None)"
  by (simp add: redis_get_def stored_def healthy_def)

lemma checkLimit_absent:
  assumes "healthy r (bucketKey req)" "redis_get r (bucketKey req) now = Inr None"
    and "maxTokens rl \<ge> 1"
  shows "checkLimit rl req now r
           = (Next, stored r (bucketKey req)
                      \<lparr>tokens = of_int (maxTokens rl) - 1, lastRefill = now\<rparr> now)"
  using assms unfolding bucketKey_def healthy_def
  by (simp add: checkLimit_def Let_def redis_setEx_def stored_def)

lemma checkLimit_present:
  assumes "healthy r (bucketKey req)" "redis_get r (bucketKey req) now = Inr (Some b)"
  shows "checkLimit rl req now r =
     (let tk = min (of_int (maxTokens rl))
                 (tokens b + (of_int (now - lastRefill b) / 1000) * of_int (refillRate rl))
      in if tk \<ge> 1
         then (Next, stored r (bucketKey req) \<lparr>tokens = tk - 1, lastRefill = now\<rparr> now)
         else (TooManyRequests 429
                 (if refillRate rl = 0 then None
                  else Some \<lceil>(of_int \<lceil>(1 - tk) / of_int (refillRate rl) * 1000\<rceil> :: rat) / 1000\<rceil>), r))"
  using assms unfolding bucketKey_def healthy_def
  by (simp add: checkLimit_def Let_def redis_setEx_def stored_def refillInterval_def)


text \<open>
  Claim C7. The limiter has \<open>maxTokens = 5\<close> and \<open>refillRate = 5\<close>, the store works
  and holds no bucket for the client. Five calls of \<^verbatim>\<open>checkLimit\<close> at the same instant
  call \<^verbatim>\<open>next()\<close>; the sixth at that instant answers 429 with \<open>retryAfter = 1\<close> and
  leaves the store as it was; a call one second later, or any time after that, calls
  \<^verbatim>\<open>next()\<close> again.
\<close>

theorem token_bucket_five_then_reject_then_refill:
  assumes cfg: "maxTokens rl = 5" "refillRate rl = 5"
    and up: "healthy r0 (bucketKey req)"
    and absent: "redis_get r0 (bucketKey req) now = Inr None"
    and r1: "r1 = snd (checkLimit rl req now r0)"
    and r2: "r2 = snd (checkLimit rl req now r1)"
    and r3: "r3 = snd (checkLimit rl req now r2)"
    and r4: "r4 = snd (checkLimit rl req now r3)"
    and r5: "r5 = snd (checkLimit rl req now r4)"
    and r6: "r6 = snd (checkLimit rl req now r5)"
    and wait: "now + 1000 \<le> now'"
  shows "fst (checkLimit rl req now r0) = Next
       \<and> fst (checkLimit rl req now r1) = Next
       \<and> fst (checkLimit rl req now r2) = Next
       \<and> fst (checkLimit rl req now r3) = Next
       \<and> fst (checkLimit rl req now r4) = Next
       \<and> fst (checkLimit rl req now r5) = TooManyRequests 429 (Some 1)
       \<and> r6 = r5
       \<and> fst (checkLimit rl req now' r6) = Next"
proof -
  let ?k = "bucketKey req"
  let ?S = "\<lambda>n. stored r0 ?k \<lparr>tokens = n, lastRefill = now\<rparr> now"
  have get: "redis_get (?S n) ?k now = Inr (Some \<lparr>tokens = n, lastRefill = now\<rparr>)" for n
    using up by (simp add: get_stored)
  have c1: "checkLimit rl req now r0 = (Next, ?S 4)"
    using checkLimit_absent [OF up absent, of rl] cfg by simp
  have step: "checkLimit rl req now (?S n) = (Next, ?S (n - 1))" if "1 \<le> n" "n \<le> 5" for n
    using checkLimit_present [of "?S n" req now _ rl, OF _ get] up cfg that
    by (simp add: Let_def)
  have e1: "r1 = ?S 4" using r1 c1 by simp
  have c2: "checkLimit rl req now r1 = (Next, ?S 3)" using step [of 4] e1 by simp
  have e2: "r2 = ?S 3" using r2 c2 by simp
  have c3: "checkLimit rl req now r2 = (Next, ?S 2)" using step [of 3] e2 by simp
  have e3: "r3 = ?S 2" using r3 c3 by simp
  have c4: "checkLimit rl req now r3 = (Next, ?S 1)" using step [of 2] e3 by simp
  have e4: "r4 = ?S 1" using r4 c4 by simp
  have c5: "checkLimit rl req now r4 = (Next, ?S 0)" using step [of 1] e4 by simp
  have e5: "r5 = ?S 0" using r5 c5 by simp
  have ceil: "\<lceil>(1::rat) / 5\<rceil> = 1"
    by (rule ceiling_unique) simp_all
  have c6: "checkLimit rl req now r5 = (TooManyRequests 429 (Some 1), r5)"
    using checkLimit_present [of "?S 0" req now _ rl, OF _ get] up cfg e5
    by (simp add: Let_def ceil)
  have e6: "r6 = ?S 0" using r6 c6 e5 by simp
  have c7: "fst (checkLimit rl req now' r6) = Next"
  proof (cases "now' < now + 60000")
    case True
    have g: "redis_get (?S 0) ?k now' = Inr (Some \<lparr>tokens = 0, lastRefill = now\<rparr>)"
      using up True by (simp add: get_stored)
    have "(1::rat) \<le> of_int (now' - now) / 1000"
      using wait by simp
    then have "(5::rat) \<le> of_int (now' - now) / 1000 * 5"
      by simp
    then have "min (5::rat) (of_int (now' - now) / 1000 * 5) = 5"
      by simp
    then show ?thesis
      using checkLimit_present [of "?S 0" req now' _ rl, OF _ g] up cfg e6
      by (simp add: Let_def)
  next
    case False
    have g: "redis_get (?S 0) ?k now' = Inr None"
      using up False by (simp add: get_stored)
    show ?thesis
      using checkLimit_absent [of "?S 0" req now' rl, OF _ g] up cfg e6 by simp
  qed
  show ?thesis
    using c1 c2 c3 c4 c5 c6 c7 e5 e6 by simp
qed

theorem token_bucket_five_then_reject_then_refill_witness:
  "let rl = \<lparr>maxTokens = 5, refillRate = 5\<rparr>;
       req = \<lparr>x_api_key = Single ''k1'', ip = Some ''10.0.0.7'', remoteAddress = None\<rparr>;
       r0 = \<lparr>entries = Map.empty, getFault = (\<lambda>_. None), setFault = (\<lambda>_. None)\<rparr>;
       r1 = snd (checkLimit rl req 1000 r0);
       r2 = snd (checkLimit rl req 1000 r1);
       r3 = snd (checkLimit rl req 1000 r2);
       r4 = snd (checkLimit rl req 1000 r3);
       r5 = snd (checkLimit rl req 1000 r4);
       r6 = snd (checkLimit rl req 1000 r5)
   in healthy r0 (bucketKey req) \<and> redis_get r0 (bucketKey req) 1000 = Inr None
      \<and> fst (checkLimit rl req 1000 r4) = Next
      \<and> fst (checkLimit rl req 1000 r5) = TooManyRequests 429 (Some 1)
      \<and> fst (checkLimit rl req 2000 r6) = Next"
proof -
  let ?rl = "\<lparr>maxTokens = 5, refillRate = 5\<rparr>"
  let ?req = "\<lparr>x_api_key = Single ''k1'', ip = Some ''10.0.0.7'', remoteAddress = None\<rparr>"
  let ?r0 = "\<lparr>entries = Map.empty, getFault = (\<lambda>_. None), setFault = (\<lambda>_. None)\<rparr>"
  have cfg: "maxTokens ?rl = 5" "refillRate ?rl = 5"
    by simp_all
  have up: "healthy ?r0 (bucketKey ?req)"
    by (simp add: healthy_def)
  have absent: "redis_get ?r0 (bucketKey ?req) 1000 = Inr None"
    by (simp add: redis_get_def)
  have wait: "(1000::int) + 1000 \<le> 2000"
    by simp
  note T = token_bucket_five_then_reject_then_refill
    [OF cfg up absent refl refl refl refl refl refl wait]
  show ?thesis
    unfolding Let_def using T up absent by blast
qed

text \<open>
  Claim C9. When the read of the bucket throws, \<^verbatim>\<open>checkLimit\<close> calls \<^verbatim>\<open>next()\<close> and
  leaves the store alone. When the write throws, that is when the store refuses writes
  and the request is one that a store accepting them would let pass, \<^verbatim>\<open>checkLimit\<close>
  calls \<^verbatim>\<open>next()\<close> as well. A request is answered with 429 on a faulty store only
  when the read worked and no write was attempted.
\<close>

theorem store_unavailable_fails_open:
  "(getFault r (bucketKey req) = Some e \<longrightarrow> checkLimit rl req now r = (Next, r))
   \<and> (setFault r (bucketKey req) = Some e
        \<and> fst (checkLimit rl req now (r\<lparr>setFault := \<lambda>_. None\<rparr>)) = Next
        \<longrightarrow> checkLimit rl req now r = (Next, r))
   \<and> ((getFault r (bucketKey req) \<noteq> None \<or> setFault r (bucketKey req) \<noteq> None)
        \<and> fst (checkLimit rl req now r) \<noteq> Next
        \<longrightarrow> getFault r (bucketKey req) = None
            \<and> checkLimit rl req now (r\<lparr>setFault := \<lambda>_. None\<rparr>)
                = (fst (checkLimit rl req now r), r\<lparr>setFault := \<lambda>_. None\<rparr>))"
  unfolding bucketKey_def
  by (auto simp: checkLimit_def redis_get_def redis_setEx_def Let_def
           split: option.splits sum.splits if_splits)

text \<open>A store that refuses every connection, asked by a client that has used up its bucket.\<close>

theorem store_unavailable_fails_open_witness:
  "let req = \<lparr>x_api_key = Absent, ip = Some ''10.0.0.7'', remoteAddress = None\<rparr>;
       down = \<lparr>entries = [''rate_limit:ip:10.0.0.7'' \<mapsto> (\<lparr>tokens = 0, lastRefill = 1000\<rparr>, 61000)],
               getFault = (\<lambda>_. Some (Error ''ECONNREFUSED'')),
               setFault = (\<lambda>_. Some (Error ''ECONNREFUSED''))\<rparr>
   in getFault down (bucketKey req) = Some (Error ''ECONNREFUSED'')
      \<and> fst (checkLimit \<lparr>maxTokens = 5, refillRate = 5\<rparr> req 1000 (down\<lparr>getFault := \<lambda>_. None\<rparr>))
            = TooManyRequests 429 (Some 1)
      \<and> checkLimit \<lparr>maxTokens = 5, refillRate = 5\<rparr> req 1000 down = (Next, down)"
proof -
  have ceil: "\<lceil>(1::rat) / 5\<rceil> = 1"
    by (rule ceiling_unique) simp_all
  show ?thesis
    using store_unavailable_fails_open
      [of "\<lparr>entries = [''rate_limit:ip:10.0.0.7'' \<mapsto> (\<lparr>tokens = 0, lastRefill = 1000\<rparr>, 61000)],
             getFault = (\<lambda>_. Some (Error ''ECONNREFUSED'')),
             setFault = (\<lambda>_. Some (Error ''ECONNREFUSED''))\<rparr>"
          "\<lparr>x_api_key = Absent, ip = Some ''10.0.0.7'', remoteAddress = None\<rparr>"
          "Error ''ECONNREFUSED''" "\<lparr>maxTokens = 5, refillRate = 5\<rparr>" 1000]
    by (simp add: Let_def bucketKey_def getClientId_def orElse_def checkLimit_def redis_get_def
          refillInterval_def ceil)
qed

section \<open>Orchestrator: lemmas\<close>

lemma runSteps_Cons:
  "runSteps call (stp # rest) st =
     (case tools call stp of
        None \<Rightarrow> runSteps call rest st
      | Some tool \<Rightarrow>
          (case iteration call tool stp st of
             (True, st') \<Rightarrow> runSteps call rest st'
           | (False, st') \<Rightarrow> st'))"
  by (simp add: iteration_def Let_def split: option.splits prod.splits completion.splits)

lemma streamEvent_cases:
  obtains (threw) e where "streamEvent cb ev s = (Some e, s)" "\<not> accepts cb ev (stream s)"
  | (wrote) written where "streamEvent cb ev s = (None, s\<lparr>stream := written\<rparr>)"
      "accepts cb ev (stream s)" "cb = None \<longrightarrow> written = stream s"
      "cb = Some sseCallback \<longrightarrow> written = stream s @ [ev]"
proof (cases cb)
  case None
  then have "streamEvent cb ev s = (None, s\<lparr>stream := stream s\<rparr>)" "accepts cb ev (stream s)"
    by (simp_all add: streamEvent_def accepts_def)
  with None show ?thesis by (intro wrote [of "stream s"]) simp_all
next
  case (Some f)
  show ?thesis
  proof (cases "f ev (stream s)")
    case (Inl e)
    with Some show ?thesis
      by (intro threw [of e]) (simp_all add: streamEvent_def accepts_def)
  next
    case (Inr written)
    with Some show ?thesis
      by (intro wrote [of written]) (auto simp: streamEvent_def accepts_def sseCallback_def)
  qed
qed

lemma prisma_cases:
  obtains (refused) e where "rejects (db s) operation = Some e"
      "prisma operation effect s
         = (Some e, s\<lparr>world := sleep (latency (db s) operation) (world s)\<rparr>)"
  | (carried) "rejects (db s) operation = None"
      "prisma operation effect s
         = (None, s\<lparr>world := sleep (latency (db s) operation) (world s), db := effect (db s)\<rparr>)"
  by (cases "rejects (db s) operation") (simp_all add: prisma_def Let_def)


lemma agentTrace_create_cases:
  fixes s :: "'e triage"
  obtains (refused) e where "rejects (db s) (AgentTraceCreate row) = Some e"
      "agentTrace_create row s
         = (Some e, s\<lparr>world := sleep (latency (db s) (AgentTraceCreate row)) (world s)\<rparr>)"
  | (carried) "rejects (db s) (AgentTraceCreate row) = None"
      "agentTrace_create row s
         = (None, s\<lparr>world := sleep (latency (db s) (AgentTraceCreate row)) (world s),
                     db := (db s)\<lparr>agentTraces := agentTraces (db s) @ [row]\<rparr>\<rparr>)"
  by (cases "rejects (db s) (AgentTraceCreate row)")
     (simp_all add: agentTrace_create_def prisma_def Let_def)

lemma iteration_cases
  [case_names break threwRunning threwTrace threwFallback fellBack threwCompleted completed]:
  fixes call :: "'e invocation" and st :: "'e triage"
  obtains
    "budgetExceeded call st" "iteration call tool stp st = (False, st)"
  | e where "\<not> budgetExceeded call st"
      "\<not> accepts (streamCallback call)
           (ToolUpdate stp ''running'' None (invocation_runId call)) (stream st)"
      "streamEvent (streamCallback call) (ToolUpdate stp ''running'' None (invocation_runId call)) st
         = (Some e, st)"
      "iteration call tool stp st = (True, catchBlock stp (clock (world st)) e st)"
  | written result m' w' st3 row e where "\<not> budgetExceeded call st"
      "streamEvent (streamCallback call) (ToolUpdate stp ''running'' None (invocation_runId call)) st
         = (None, st\<lparr>stream := written\<rparr>)"
      "BaseTool_execute tool (jitter call (name tool)) (context st) (breaker st) (world st)
         = (result, m', w')"
      "st3 = recordStep stp result (clock w' - clock (world st))
               (storeResult stp result (st\<lparr>stream := written, breaker := m', world := w'\<rparr>))"
      "row = traceRowOf call stp result (clock w' - clock (world st)) st3"
      "rejects (db st) (AgentTraceCreate row) = Some e"
      "iteration call tool stp st
         = (True, catchBlock stp (clock (world st)) e
                    (st3\<lparr>world := sleep (latency (db st) (AgentTraceCreate row)) w'\<rparr>))"
  | written result m' w' st3 row st4 e where "\<not> budgetExceeded call st"
      "streamEvent (streamCallback call) (ToolUpdate stp ''running'' None (invocation_runId call)) st
         = (None, st\<lparr>stream := written\<rparr>)"
      "BaseTool_execute tool (jitter call (name tool)) (context st) (breaker st) (world st)
         = (result, m', w')"
      "st3 = recordStep stp result (clock w' - clock (world st))
               (storeResult stp result (st\<lparr>stream := written, breaker := m', world := w'\<rparr>))"
      "row = traceRowOf call stp result (clock w' - clock (world st)) st3"
      "rejects (db st) (AgentTraceCreate row) = None"
      "st4 = st3\<lparr>world := sleep (latency (db st) (AgentTraceCreate row)) w',
                 db := (db st)\<lparr>agentTraces := agentTraces (db st) @ [row]\<rparr>\<rparr>"
      "\<not> ok result"
      "streamEvent (streamCallback call)
         (FallbackTriggered stp (error result) (invocation_runId call)) (st4\<lparr>fallbackUsed := True\<rparr>)
         = (Some e, st4\<lparr>fallbackUsed := True\<rparr>)"
      "iteration call tool stp st
         = (True, catchBlock stp (clock (world st)) e (st4\<lparr>fallbackUsed := True\<rparr>))"
  | written result m' w' st3 row st4 written' where "\<not> budgetExceeded call st"
      "streamEvent (streamCallback call) (ToolUpdate stp ''running'' None (invocation_runId call)) st
         = (None, st\<lparr>stream := written\<rparr>)"
      "BaseTool_execute tool (jitter call (name tool)) (context st) (breaker st) (world st)
         = (result, m', w')"
      "st3 = recordStep stp result (clock w' - clock (world st))
               (storeResult stp result (st\<lparr>stream := written, breaker := m', world := w'\<rparr>))"
      "row = traceRowOf call stp result (clock w' - clock (world st)) st3"
      "rejects (db st) (AgentTraceCreate row) = None"
      "st4 = st3\<lparr>world := sleep (latency (db st) (AgentTraceCreate row)) w',
                 db := (db st)\<lparr>agentTraces := agentTraces (db st) @ [row]\<rparr>\<rparr>"
      "\<not> ok result"
      "streamEvent (streamCallback call)
         (FallbackTriggered stp (error result) (invocation_runId call)) (st4\<lparr>fallbackUsed := True\<rparr>)
         = (None, st4\<lparr>fallbackUsed := True, stream := written'\<rparr>)"
      "iteration call tool stp st
         = (True, if stp = ''riskSignals''
                  then st4\<lparr>fallbackUsed := True, stream := written',
                           riskResult := Some getFallbackRisk\<rparr>
                  else st4\<lparr>fallbackUsed := True, stream := written'\<rparr>)"
  | written result m' w' st3 row st4 e where "\<not> budgetExceeded call st"
      "streamEvent (streamCallback call) (ToolUpdate stp ''running'' None (invocation_runId call)) st
         = (None, st\<lparr>stream := written\<rparr>)"
      "BaseTool_execute tool (jitter call (name tool)) (context st) (breaker st) (world st)
         = (result, m', w')"
      "st3 = recordStep stp result (clock w' - clock (world st))
               (storeResult stp result (st\<lparr>stream := written, breaker := m', world := w'\<rparr>))"
      "row = traceRowOf call stp result (clock w' - clock (world st)) st3"
      "rejects (db st) (AgentTraceCreate row) = None"
      "st4 = st3\<lparr>world := sleep (latency (db st) (AgentTraceCreate row)) w',
                 db := (db st)\<lparr>agentTraces := agentTraces (db st) @ [row]\<rparr>\<rparr>"
      "ok result"
      "streamEvent (streamCallback call)
         (ToolUpdate stp ''completed'' (Some (clock w' - clock (world st))) (invocation_runId call)) st4
         = (Some e, st4)"
      "iteration call tool stp st = (True, catchBlock stp (clock (world st)) e st4)"
  | written result m' w' st3 row st4 written' where "\<not> budgetExceeded call st"
      "streamEvent (streamCallback call) (ToolUpdate stp ''running'' None (invocation_runId call)) st
         = (None, st\<lparr>stream := written\<rparr>)"
      "BaseTool_execute tool (jitter call (name tool)) (context st) (breaker st) (world st)
         = (result, m', w')"
      "st3 = recordStep stp result (clock w' - clock (world st))
               (storeResult stp result (st\<lparr>stream := written, breaker := m', world := w'\<rparr>))"
      "row = traceRowOf call stp result (clock w' - clock (world st)) st3"
      "rejects (db st) (AgentTraceCreate row) = None"
      "st4 = st3\<lparr>world := sleep (latency (db st) (AgentTraceCreate row)) w',
                 db := (db st)\<lparr>agentTraces := agentTraces (db st) @ [row]\<rparr>\<rparr>"
      "ok result"
      "streamEvent (streamCallback call)
         (ToolUpdate stp ''completed'' (Some (clock w' - clock (world st))) (invocation_runId call)) st4
         = (None, st4\<lparr>stream := written'\<rparr>)"
      "iteration call tool stp st = (True, st4\<lparr>stream := written'\<rparr>)"
proof (cases "budgetExceeded call st")
  case True
  then have "iteration call tool stp st = (False, st)"
    by (simp add: iteration_def tryBlock_def budgetExceeded_def)
  with True show ?thesis by (rule that(1))
next
  case nb: False
  let ?run = "ToolUpdate stp ''running'' None (invocation_runId call)"
  show ?thesis
  proof (cases "streamCallback call" ?run st rule: streamEvent_cases)
    case (threw e)
    then have "iteration call tool stp st = (True, catchBlock stp (clock (world st)) e st)"
      using nb by (simp add: iteration_def tryBlock_def budgetExceeded_def)
    with nb threw show ?thesis by (intro that(2) [of e])
  next
    case (wrote written)
    obtain result m' w' where ex:
      "BaseTool_execute tool (jitter call (name tool)) (context st) (breaker st) (world st)
         = (result, m', w')"
      by (cases "BaseTool_execute tool (jitter call (name tool)) (context st) (breaker st) (world st)")
    let ?dur = "clock w' - clock (world st)"
    define st3 where "st3 = recordStep stp result ?dur
               (storeResult stp result (st\<lparr>stream := written, breaker := m', world := w'\<rparr>))"
    define row where "row = traceRowOf call stp result ?dur st3"
    have db3: "db st3 = db st" and w3: "world st3 = w'"
      by (simp_all add: st3_def recordStep_def storeResult_def)
    have tb: "tryBlock call tool stp (clock (world st)) st
                 = (case agentTrace_create row st3 of
                      (Some e, st4) \<Rightarrow> (Threw e, st4)
                    | (None, st4) \<Rightarrow> afterTrace call stp result ?dur st4)"
      using nb wrote(1) ex
      by (simp add: tryBlock_def budgetExceeded_def Let_def st3_def row_def )
    show ?thesis
    proof (cases row st3 rule: agentTrace_create_cases)
      case (refused e)
      then have "iteration call tool stp st
         = (True, catchBlock stp (clock (world st)) e
                    (st3\<lparr>world := sleep (latency (db st) (AgentTraceCreate row)) w'\<rparr>))"
        using tb by (simp add: iteration_def db3 w3)
      with nb wrote(1) ex refused(1) show ?thesis
        unfolding db3 by (intro that(3) [of written result m' w' st3 row e])
          (simp_all add: st3_def row_def )
    next
      case carried
      define st4 where "st4 = st3\<lparr>world := sleep (latency (db st) (AgentTraceCreate row)) w',
                 db := (db st)\<lparr>agentTraces := agentTraces (db st) @ [row]\<rparr>\<rparr>"
      have tb': "tryBlock call tool stp (clock (world st)) st = afterTrace call stp result ?dur st4"
        using tb carried by (simp add: db3 w3 st4_def)
      show ?thesis
      proof (cases "ok result")
        case True
        let ?ev = "ToolUpdate stp ''completed'' (Some ?dur) (invocation_runId call)"
        show ?thesis
        proof (cases "streamCallback call" ?ev st4 rule: streamEvent_cases)
          case (threw e)
          then have "iteration call tool stp st = (True, catchBlock stp (clock (world st)) e st4)"
            using tb' True by (simp add: iteration_def afterTrace_def)
          with nb wrote(1) ex carried(1) True threw(1) show ?thesis
            unfolding db3 by (intro that(6) [of written result m' w' st3 row st4 e])
              (simp_all add: st3_def row_def  st4_def)
        next
          case w2: (wrote written')
          then have "iteration call tool stp st = (True, st4\<lparr>stream := written'\<rparr>)"
            using tb' True by (simp add: iteration_def afterTrace_def)
          with nb wrote(1) ex carried(1) True w2(1) show ?thesis
            unfolding db3 by (intro that(7) [of written result m' w' st3 row st4 written'])
              (simp_all add: st3_def row_def  st4_def)
        qed
      next
        case False
        let ?ev = "FallbackTriggered stp (error result) (invocation_runId call)"
        show ?thesis
        proof (cases "streamCallback call" ?ev "st4\<lparr>fallbackUsed := True\<rparr>"
            rule: streamEvent_cases)
          case (threw e)
          then have "iteration call tool stp st
              = (True, catchBlock stp (clock (world st)) e (st4\<lparr>fallbackUsed := True\<rparr>))"
            using tb' False by (simp add: iteration_def afterTrace_def)
          with nb wrote(1) ex carried(1) False threw(1) show ?thesis
            unfolding db3 by (intro that(4) [of written result m' w' st3 row st4 e])
              (simp_all add: st3_def row_def  st4_def)
        next
          case w2: (wrote written')
          then have "iteration call tool stp st
            = (True, if stp = ''riskSignals''
                  then st4\<lparr>fallbackUsed := True, stream := written',
                           riskResult := Some getFallbackRisk\<rparr>
                  else st4\<lparr>fallbackUsed := True, stream := written'\<rparr>)"
            using tb' False by (simp add: iteration_def afterTrace_def)
          with nb wrote(1) ex carried(1) False w2(1) show ?thesis
            unfolding db3 by (intro that(5) [of written result m' w' st3 row st4 written'])
              (simp_all add: st3_def row_def  st4_def)
        qed
      qed
    qed
  qed
qed

lemma storeResult_same [simp]:
  "steps (storeResult stp r st) = steps st"
  "db (storeResult stp r st) = db st"
  "stream (storeResult stp r st) = stream st"
  "world (storeResult stp r st) = world st"
  "breaker (storeResult stp r st) = breaker st"
  "fallbackUsed (storeResult stp r st) = fallbackUsed st"
  by (simp_all add: storeResult_def)

lemma storeResult_riskResult:
  "riskResult (storeResult stp r st)
     = (if stp = ''riskSignals'' \<and> ok r then data r else riskResult st)"
  by (simp add: storeResult_def)

lemma storeResult_proposalResult:
  "proposalResult (storeResult stp r st)
     = (if stp = ''proposeAction'' \<and> ok r then data r else proposalResult st)"
  by (simp add: storeResult_def)

lemma recordStep_simps [simp]:
  "steps (recordStep stp r d st) = steps st @ [agentStepOf stp r d]"
  "db (recordStep stp r d st) = db st"
  "stream (recordStep stp r d st) = stream st"
  "world (recordStep stp r d st) = world st"
  "breaker (recordStep stp r d st) = breaker st"
  "fallbackUsed (recordStep stp r d st) = fallbackUsed st"
  "riskResult (recordStep stp r d st) = riskResult st"
  "proposalResult (recordStep stp r d st) = proposalResult st"
  by (simp_all add: recordStep_def)

lemma catchBlock_simps [simp]:
  "steps (catchBlock stp t0 e st)
     = steps st @ [\<lparr>step = stp, step_ok = False, step_duration = clock (world st) - t0,
                     detail = DetailError (Some (message e)), step_fallbackUsed = True\<rparr>]"
  "db (catchBlock stp t0 e st) = db st"
  "stream (catchBlock stp t0 e st) = stream st"
  "world (catchBlock stp t0 e st) = world st"
  "breaker (catchBlock stp t0 e st) = breaker st"
  "fallbackUsed (catchBlock stp t0 e st)"
  "riskResult (catchBlock stp t0 e st) = riskResult st"
  "proposalResult (catchBlock stp t0 e st) = proposalResult st"
  by (simp_all add: catchBlock_def)

lemma agentStepOf_simps [simp]:
  "step (agentStepOf stp r d) = stp"
  "step_ok (agentStepOf stp r d) = ok r"
  by (simp_all add: agentStepOf_def)

lemma traceRowOf_simps [simp]:
  "trace_step (traceRowOf call stp r d st) = stp"
  "trace_ok (traceRowOf call stp r d st) = ok r"
  by (simp_all add: traceRowOf_def)

text \<open>What one iteration does to the list of steps, to the traces and to the database.\<close>

lemma iteration_records:
  assumes "iteration call tool stp st = (go, st')"
  shows "\<exists>new rows. steps st' = steps st @ new \<and> (\<forall>x \<in> set new. step x = stp)
           \<and> agentTraces (db st') = agentTraces (db st) @ rows \<and> length rows \<le> 1
           \<and> (\<forall>x \<in> set rows. trace_step x = stp)
           \<and> rejects (db st') = rejects (db st) \<and> latency (db st') = latency (db st)
           \<and> alerts (db st') = alerts (db st) \<and> triageRuns (db st') = triageRuns (db st)
           \<and> (fallbackUsed st \<longrightarrow> fallbackUsed st')"
  using assms
  by (cases call tool stp st rule: iteration_cases) (auto split: if_splits)


lemma finalize_succeeds:
  assumes upd: "rejects (db st) (TriageRunUpdate (invocation_runId call)) = None"
    and cb: "\<And>ev written. topLevel ev \<Longrightarrow> accepts (streamCallback call) ev written"
  shows "\<exists>st'. finalize call pl st = (Inr (decisionOf call pl st), st')
           \<and> triageRuns (db st') = terminalRuns call st
           \<and> agentTraces (db st') = agentTraces (db st)
           \<and> (streamCallback call = None \<longrightarrow> stream st' = stream st)
           \<and> (streamCallback call = Some sseCallback
                 \<longrightarrow> stream st' = stream st @ [decisionEvent call st])"
proof -
  let ?rid = "invocation_runId call"
  let ?lat = "clock (world st) - startTime call"
  let ?st1 = "st\<lparr>world := sleep (latency (db st) (TriageRunUpdate ?rid)) (world st),
               db := (db st)\<lparr>triageRuns := terminalRuns call st\<rparr>\<rparr>"
  have u: "triageRun_update ?rid (finalRisk st) (finalReasons st) (fallbackUsed st) ?lat st
             = (None, ?st1)"
    using upd by (simp add: triageRun_update_def prisma_def Let_def terminalRuns_def)
  have acc: "accepts (streamCallback call) (decisionEvent call st) (stream ?st1)"
    using cb by (simp add: decisionEvent_def)
  show ?thesis
  proof (cases "streamCallback call" "decisionEvent call st" ?st1 rule: streamEvent_cases)
    case (threw e)
    with acc show ?thesis by simp
  next
    case (wrote written)
    have "finalize call pl st = (Inr (decisionOf call pl st), ?st1\<lparr>stream := written\<rparr>)"
      using u wrote(1) by (simp add: finalize_def Let_def decisionOf_def decisionEvent_def)
    with wrote(3,4) show ?thesis
      by (intro exI [of _ "?st1\<lparr>stream := written\<rparr>"]) simp
  qed
qed


lemmas route_defs = streamRoute_def executeTriage_def alert_findUnique_def triageRun_create_def
  finalize_def triageRun_update_def finalRisk_def finalReasons_def finalAction_def
  DecisionTool_run_def ProposeActionTool_run_def definedActions_def defaultPlan_def orElse_def
  sysOf_def



lemma runSteps_induct_state [consumes 1, case_names step]:
  assumes "P st"
    and "\<And>tool stp st go st'. P st \<Longrightarrow> stp \<in> set pl \<Longrightarrow> tools call stp = Some tool \<Longrightarrow>
           iteration call tool stp st = (go, st') \<Longrightarrow> P st'"
  shows "P (runSteps call pl st)"
  using assms
proof (induction pl arbitrary: st)
  case Nil
  then show ?case by simp
next
  case (Cons p pl)
  show ?case
  proof (cases "tools call p")
    case None
    have "P (runSteps call pl st)"
      by (rule Cons.IH [OF Cons.prems(1)]) (rule Cons.prems(2), auto)
    with None show ?thesis
      by (simp add: runSteps_Cons del: runSteps.simps(2))
  next
    case (Some tp)
    obtain go st' where it: "iteration call tp p st = (go, st')"
      by (cases "iteration call tp p st")
    have P': "P st'"
      by (rule Cons.prems(2) [OF Cons.prems(1) _ Some it]) simp
    have "P (runSteps call pl st')"
      by (rule Cons.IH [OF P']) (rule Cons.prems(2), auto)
    with Some it P' show ?thesis
      by (cases go) (simp_all add: runSteps_Cons del: runSteps.simps(2))
  qed
qed

lemma runSteps_db:
  "rejects (db (runSteps call pl st)) = rejects (db st)
   \<and> latency (db (runSteps call pl st)) = latency (db st)
   \<and> alerts (db (runSteps call pl st)) = alerts (db st)
   \<and> triageRuns (db (runSteps call pl st)) = triageRuns (db st)"
proof (rule runSteps_induct_state
    [where P = "\<lambda>x. rejects (db x) = rejects (db st) \<and> latency (db x) = latency (db st)
                  \<and> alerts (db x) = alerts (db st) \<and> triageRuns (db x) = triageRuns (db st)"])
  show "rejects (db st) = rejects (db st) \<and> latency (db st) = latency (db st)
          \<and> alerts (db st) = alerts (db st) \<and> triageRuns (db st) = triageRuns (db st)"
    by simp
next
  fix tool stp st0 go st'
  assume "rejects (db st0) = rejects (db st) \<and> latency (db st0) = latency (db st)
            \<and> alerts (db st0) = alerts (db st) \<and> triageRuns (db st0) = triageRuns (db st)"
    and "iteration call tool stp st0 = (go, st')"
  with iteration_records [of call tool stp st0 go st']
  show "rejects (db st') = rejects (db st) \<and> latency (db st') = latency (db st)
          \<and> alerts (db st') = alerts (db st) \<and> triageRuns (db st') = triageRuns (db st)"
    by auto
qed













subsection \<open>The fallback for the risk step\<close>

lemma executeWithTimeout_value:
  assumes "fst (executeWithTimeout t c w) = Inr d"
  shows "\<exists>w'. run t c w = (Resolved d, w')"
  using assms
  by (auto simp: executeWithTimeout_def Let_def split: prod.splits settled.splits if_splits)

lemma retryLoop_value:
  "fst (retryLoop t jit ctx attempt w) = Inr d \<Longrightarrow> \<exists>w0 w1. run t ctx w0 = (Resolved d, w1)"
proof (induction t jit ctx attempt w rule: retryLoop.induct)
  case (1 t jit ctx attempt w)
  note unfold = retryLoop.simps [of t jit ctx attempt w]
  show ?case
  proof (cases "fst (executeWithTimeout t ctx w)")
    case (Inr d')
    with "1.prems" have "d' = d" by (simp add: unfold Let_def)
    with Inr executeWithTimeout_value [of t ctx w d] show ?thesis by blast
  next
    case (Inl err)
    show ?thesis
    proof (cases "attempt < maxRetries t")
      case True
      with Inl "1.prems" have "fst (retryLoop t jit ctx (attempt + 1)
          (sleep (retryDelay t jit attempt) (snd (executeWithTimeout t ctx w)))) = Inr d"
        by (simp add: unfold Let_def)
      with "1.IH" [OF refl Inl True] show ?thesis by simp
    next
      case False
      with Inl "1.prems" show ?thesis by (simp add: unfold Let_def)
    qed
  qed
qed

lemma CircuitBreaker_execute_value:
  assumes "CircuitBreaker_execute tn fn m w = (Inr d, m', w')"
  shows "fst (fn w) = Inr d"
proof -
  obtain s m1 where g: "getState m tn = (s, m1)"
    by (cases "getState m tn")
  obtain x w1 where f: "fn w = (x, w1)"
    by (cases "fn w")
  show ?thesis
    using assms g f
    by (cases x) (simp_all add: CircuitBreaker_execute_def Let_def split: if_splits)
qed

lemma BaseTool_execute_data:
  assumes "BaseTool_execute t jit ctx m w = (result, m', w')"
  shows "ok result \<Longrightarrow> \<exists>d. data result = Some d \<and> (\<exists>w0 w1. run t ctx w0 = (Resolved d, w1))"
    and "\<not> ok result \<Longrightarrow> data result = None"
proof -
  obtain x m1 w1 where c: "CircuitBreaker_execute (name t) (executeWithRetry t jit ctx) m w = (x, m1, w1)"
    by (cases "CircuitBreaker_execute (name t) (executeWithRetry t jit ctx) m w")
  show "\<not> ok result \<Longrightarrow> data result = None"
    using c assms by (cases x) (auto simp: BaseTool_execute_def Let_def)
  show "\<exists>d. data result = Some d \<and> (\<exists>w0 w1. run t ctx w0 = (Resolved d, w1))" if "ok result"
  proof (cases x)
    case (Inl e)
    with c assms that show ?thesis by (auto simp: BaseTool_execute_def Let_def)
  next
    case (Inr d)
    with c have "fst (executeWithRetry t jit ctx w) = Inr d"
      by (simp add: CircuitBreaker_execute_value)
    then have from_run: "\<exists>w0 w2. run t ctx w0 = (Resolved d, w2)"
      unfolding executeWithRetry_def by (rule retryLoop_value)
    from Inr c assms have "data result = Some d"
      by (auto simp: BaseTool_execute_def Let_def)
    with from_run show ?thesis
      by (intro exI [of _ d] conjI)
  qed
qed

lemma ProposeActionTool_run_valid:
  assumes "ProposeActionTool_run c w = (Resolved d, w')"
  shows "\<exists>a. action_of d = Some a \<and> a \<in> set definedActions"
  using assms
  by (auto simp: ProposeActionTool_run_def Let_def definedActions_def split: if_splits)

lemma firstStep_append:
  "firstStep stp (xs @ ys)
     = (case firstStep stp xs of None \<Rightarrow> firstStep stp ys | Some x \<Rightarrow> Some x)"
  by (induction xs) (simp_all add: firstStep_def)

lemma firstStep_simps [simp]:
  "firstStep stp [] = None"
  "firstStep stp (x # xs) = (if step x = stp then Some x else firstStep stp xs)"
  by (simp_all add: firstStep_def)

lemma firstStep_other:
  "\<forall>x \<in> set ys. step x \<noteq> stp \<Longrightarrow> firstStep stp ys = None"
  by (induction ys) simp_all

lemma iteration_other_step:
  assumes "iteration call tool stp st = (go, st')" and "stp \<noteq> ''riskSignals''"
  shows "riskResult st' = riskResult st"
    and "firstStep ''riskSignals'' (steps st') = firstStep ''riskSignals'' (steps st)"
    and "fallbackUsed st \<longrightarrow> fallbackUsed st'"
proof -
  show "riskResult st' = riskResult st"
    using assms
    by (cases call tool stp st rule: iteration_cases) (auto simp: storeResult_riskResult)
  from iteration_records [OF assms(1)] obtain new where
    new: "steps st' = steps st @ new" "\<forall>x \<in> set new. step x = stp"
    and fb: "fallbackUsed st \<longrightarrow> fallbackUsed st'"
    by blast
  from new(2) assms(2) have "firstStep ''riskSignals'' new = None"
    by (intro firstStep_other) auto
  with new(1) show "firstStep ''riskSignals'' (steps st') = firstStep ''riskSignals'' (steps st)"
    by (simp add: firstStep_append split: option.splits)
  from fb show "fallbackUsed st \<longrightarrow> fallbackUsed st'" .
qed

lemma iteration_risk_step:
  assumes "iteration call tool ''riskSignals'' st = (go, st')"
    and "firstStep ''riskSignals'' (steps st) = None" and "riskResult st = None"
  shows "fallbackHolds st'"
  using assms
  by (cases call tool "''riskSignals''" st rule: iteration_cases)
     (auto simp: fallbackHolds_def firstStep_append storeResult_riskResult)

lemma iteration_proposalValid:
  fixes call :: "'e invocation"
  assumes it: "iteration call tool stp st = (go, st')"
    and valid: "proposalValid st"
    and tool: "stp = ''proposeAction'' \<Longrightarrow> run tool = ProposeActionTool_run"
  shows "proposalValid st'"
proof -
  have stored: "proposalValid (storeResult stp result (st\<lparr>stream := written, breaker := m', world := w'\<rparr>))"
    if ex: "BaseTool_execute tool (jitter call (name tool)) (context st) (breaker st) (world st)
              = (result, m', w')"
    for result m' w' written
  proof (cases "stp = ''proposeAction'' \<and> ok result")
    case True
    with BaseTool_execute_data(1) [OF ex] tool obtain d and w0 w1 :: "'e world" where
      d: "data result = Some d" "ProposeActionTool_run (context st) w0 = (Resolved d, w1)"
      by auto
    from ProposeActionTool_run_valid [OF d(2)] d(1) True show ?thesis
      by (auto simp: proposalValid_def storeResult_proposalResult)
  next
    case False
    with valid show ?thesis
      by (auto simp: proposalValid_def storeResult_proposalResult)
  qed
  have same: "proposalValid x" if "proposalResult x = proposalResult y" "proposalValid y" for x y :: "'e triage"
    using that by (simp add: proposalValid_def)
  show ?thesis
    using it valid
  proof (cases call tool stp st rule: iteration_cases)
    case break
    with it valid show ?thesis by simp
  next
    case (threwRunning e)
    with it valid show ?thesis by (auto intro: same [of _ st])
  next
    case (threwTrace written result m' w' st3 row e)
    from stored [OF threwTrace(3), of written] threwTrace(4,7) it show ?thesis
      by (auto intro: same)
  next
    case (threwFallback written result m' w' st3 row st4 e)
    from stored [OF threwFallback(3), of written] threwFallback(4,7,10) it show ?thesis
      by (auto intro: same)
  next
    case (fellBack written result m' w' st3 row st4 written')
    from stored [OF fellBack(3), of written] fellBack(4,7,10) it show ?thesis
      by (auto intro: same split: if_splits)
  next
    case (threwCompleted written result m' w' st3 row st4 e)
    from stored [OF threwCompleted(3), of written] threwCompleted(4,7,10) it show ?thesis
      by (auto intro: same)
  next
    case (completed written result m' w' st3 row st4 written')
    from stored [OF completed(3), of written] completed(4,7,10) it show ?thesis
      by (auto intro: same)
  qed
qed

lemma fallbackHolds_cong:
  assumes "fallbackHolds st"
    and "riskResult st' = riskResult st"
    and "firstStep ''riskSignals'' (steps st') = firstStep ''riskSignals'' (steps st)"
    and "fallbackUsed st \<longrightarrow> fallbackUsed st'"
  shows "fallbackHolds st'"
  using assms by (auto simp: fallbackHolds_def split: option.splits)

lemma runSteps_fallback:
  fixes call :: "'e invocation"
  assumes "distinct pl"
    and "fallbackHolds st" and "proposalValid st"
    and "''riskSignals'' \<in> set pl \<Longrightarrow> firstStep ''riskSignals'' (steps st) = None"
    and tool: "\<And>t. tools call ''proposeAction'' = Some t \<Longrightarrow> run t = ProposeActionTool_run"
  shows "fallbackHolds (runSteps call pl st) \<and> proposalValid (runSteps call pl st)"
  using assms(1-4)
proof (induction pl arbitrary: st)
  case Nil
  then show ?case by simp
next
  case (Cons p pl)
  from Cons.prems(1) have fresh: "p \<notin> set pl" and rest: "distinct pl"
    by simp_all
  show ?case
  proof (cases "tools call p")
    case None
    have "fallbackHolds (runSteps call pl st) \<and> proposalValid (runSteps call pl st)"
      using rest Cons.prems(2,3)
    proof (rule Cons.IH)
      assume "''riskSignals'' \<in> set pl"
      then show "firstStep ''riskSignals'' (steps st) = None"
        by (intro Cons.prems(4)) simp
    qed
    with None show ?thesis
      by (simp add: runSteps_Cons del: runSteps.simps(2))
  next
    case (Some tp)
    obtain go st' where it: "iteration call tp p st = (go, st')"
      by (cases "iteration call tp p st")
    have valid: "proposalValid st'"
      using it Cons.prems(3)
    proof (rule iteration_proposalValid)
      assume "p = ''proposeAction''"
      with Some show "run tp = ProposeActionTool_run"
        by (intro tool) simp
    qed
    have holds: "fallbackHolds st'"
      and later: "''riskSignals'' \<in> set pl \<Longrightarrow> firstStep ''riskSignals'' (steps st') = None"
    proof -
      show "fallbackHolds st'"
      proof (cases "p = ''riskSignals''")
        case True
        then have none: "firstStep ''riskSignals'' (steps st) = None"
          by (intro Cons.prems(4)) simp
        with Cons.prems(2) have "riskResult st = None"
          by (simp add: fallbackHolds_def)
        with it none True show ?thesis
          by (intro iteration_risk_step [of call tp st go st']) simp_all
      next
        case False
        from iteration_other_step [OF it False] Cons.prems(2) show ?thesis
          by (intro fallbackHolds_cong [of st st']) simp_all
      qed
      assume later: "''riskSignals'' \<in> set pl"
      with fresh have other: "p \<noteq> ''riskSignals''"
        by auto
      from later have "firstStep ''riskSignals'' (steps st) = None"
        by (intro Cons.prems(4)) simp
      with iteration_other_step(2) [OF it other]
      show "firstStep ''riskSignals'' (steps st') = None"
        by simp
    qed
    have "fallbackHolds (runSteps call pl st') \<and> proposalValid (runSteps call pl st')"
      using rest holds valid later by (rule Cons.IH)
    with Some it holds valid show ?thesis
      by (cases go) (simp_all add: runSteps_Cons del: runSteps.simps(2))
  qed
qed

lemma fallback_decision:
  assumes "fallbackHolds st" and "proposalValid st"
    and "firstStep ''riskSignals'' (steps st) = Some x" and "\<not> step_ok x"
  shows "fallbackUsed st"
    and "finalRisk st = ''medium''"
    and "\<exists>more. finalReasons st = ''Risk assessment unavailable (fallback)'' # more"
    and "finalAction st \<in> set definedActions"
proof -
  from assms(1,3,4) have fb: "fallbackUsed st"
    and rr: "riskResult st = None \<or> riskResult st = Some getFallbackRisk"
    by (simp_all add: fallbackHolds_def)
  show "fallbackUsed st" by (rule fb)
  from rr show "finalRisk st = ''medium''"
    by (auto simp: finalRisk_def opt_def orElse_def getFallbackRisk_def)
  from rr show "\<exists>more. finalReasons st = ''Risk assessment unavailable (fallback)'' # more"
    by (auto simp: finalReasons_def opt_def getFallbackRisk_def)
  show "finalAction st \<in> set definedActions"
  proof (cases "proposalResult st")
    case None
    with rr show ?thesis
      by (auto simp: finalAction_def opt_def orElse_def getFallbackRisk_def definedActions_def)
  next
    case (Some p)
    with assms(2) obtain a where "action_of p = Some a" "a \<in> set definedActions"
      by (auto simp: proposalValid_def split: option.splits)
    with Some show ?thesis
      by (auto simp: finalAction_def opt_def orElse_def definedActions_def)
  qed
qed

lemma initialTriage_simps [simp]:
  "steps (initialTriage rid aid a s) = []"
  "riskResult (initialTriage rid aid a s) = None"
  "proposalResult (initialTriage rid aid a s) = None"
  "db (initialTriage rid aid a s) = db s"
  "stream (initialTriage rid aid a s) = stream s"
  by (simp_all add: initialTriage_def)

text \<open>
  Claim C2. A run of \<^verbatim>\<open>executeTriage\<close> with the registry of the orchestrator, for an
  alert that exists, on a database that takes the three operations made outside the loop,
  with a callback that takes the two events of the top level, returns a decision, whatever
  the tools, the breaker and the clock do. If the result of the step \<open>riskSignals\<close> was
  not ok (the first step recorded under that name is the one made from the tool result, or
  the one of the \<^verbatim>\<open>catch\<close> clause when the tool was not reached), then the decision has
  \<open>fallbackUsed\<close>, its risk is \<open>medium\<close>, its first reason is
  \<open>Risk assessment unavailable (fallback)\<close> and its recommended action is one of the four
  defined actions.
\<close>

theorem risk_failure_yields_fallback_decision:
  assumes alert: "alerts (db s) aid = Some a"
    and found: "rejects (db s) (AlertFindUnique aid) = None"
    and created: "rejects (db s) (TriageRunCreate rid aid) = None"
    and updated: "rejects (db s) (TriageRunUpdate rid) = None"
    and cb: "\<And>ev written. topLevel ev \<Longrightarrow> accepts callback ev written"
  shows "\<exists>res s'. executeTriage (Orchestrator_tools agents) jit rid aid callback s = (Inr res, s')
           \<and> (\<forall>x. firstStep ''riskSignals'' (result_steps res) = Some x \<and> \<not> step_ok x \<longrightarrow>
                  result_fallbackUsed res
                  \<and> risk res = ''medium''
                  \<and> (\<exists>more. reasons res = ''Risk assessment unavailable (fallback)'' # more)
                  \<and> recommendedAction res \<in> set definedActions)"
proof -
  define call :: "'a invocation" where
    "call = \<lparr>tools = Orchestrator_tools agents, streamCallback = callback, jitter = jit,
             startTime = clock (world s), invocation_runId = rid\<rparr>"
  have call_simps: "streamCallback call = callback" "invocation_runId call = rid"
    "tools call = Orchestrator_tools agents"
    by (simp_all add: call_def)
  define s1 where "s1 = s\<lparr>world := sleep (latency (db s) (AlertFindUnique aid)) (world s)\<rparr>"
  have f: "alert_findUnique aid s = (Inr (Some a), s1)"
    using alert found by (simp add: alert_findUnique_def prisma_def Let_def s1_def)
  have db1: "db s1 = db s"
    by (simp add: s1_def)
  obtain s2 where c: "triageRun_create rid aid s1 = (None, s2)"
    and db2: "rejects (db s2) = rejects (db s)"
    using created db1 by (simp add: triageRun_create_def prisma_def Let_def)
  let ?init = "initialTriage rid aid a s2"
  have "accepts callback (PlanBuilt defaultPlan rid) (stream ?init)"
    by (rule cb) simp
  then obtain written where
    pb: "streamEvent callback (PlanBuilt defaultPlan rid) ?init = (None, ?init\<lparr>stream := written\<rparr>)"
    by (cases callback "PlanBuilt defaultPlan rid" ?init rule: streamEvent_cases) simp_all
  let ?st0 = "?init\<lparr>stream := written\<rparr>"
  let ?stF = "runSteps call defaultPlan ?st0"
  have ex: "executeTriage (Orchestrator_tools agents) jit rid aid callback s
              = (case finalize call defaultPlan ?stF of (r, st') \<Rightarrow> (r, sysOf st'))"
    using f c pb by (simp add: executeTriage_def call_def Let_def)
  have inv: "fallbackHolds ?stF \<and> proposalValid ?stF"
  proof (rule runSteps_fallback)
    show "distinct defaultPlan"
      by (simp add: defaultPlan_def)
    show "fallbackHolds ?st0"
      by (simp add: fallbackHolds_def)
    show "proposalValid ?st0"
      by (simp add: proposalValid_def)
    show "firstStep ''riskSignals'' (steps ?st0) = None"
      by simp
    fix t assume "tools call ''proposeAction'' = Some t"
    then show "run t = ProposeActionTool_run"
      by (auto simp: call_simps Orchestrator_tools_def BaseTool_def)
  qed
  have "rejects (db ?stF) = rejects (db ?st0)"
    using runSteps_db [of call defaultPlan ?st0] by simp
  with db2 updated
  have upd: "rejects (db ?stF) (TriageRunUpdate (invocation_runId call)) = None"
    by (simp add: call_simps)
  have cb': "\<And>ev written. topLevel ev \<Longrightarrow> accepts (streamCallback call) ev written"
    using cb by (simp add: call_simps)
  from finalize_succeeds [OF upd cb', of defaultPlan] obtain st' where
    fin: "finalize call defaultPlan ?stF = (Inr (decisionOf call defaultPlan ?stF), st')"
    by blast
  let ?res = "decisionOf call defaultPlan ?stF"
  have exq: "executeTriage (Orchestrator_tools agents) jit rid aid callback s = (Inr ?res, sysOf st')"
    using ex fin by simp
  have fields: "result_steps ?res = steps ?stF" "result_fallbackUsed ?res = fallbackUsed ?stF"
    "risk ?res = finalRisk ?stF" "reasons ?res = finalReasons ?stF"
    "recommendedAction ?res = finalAction ?stF"
    by (simp_all add: decisionOf_def)
  have concl: "\<forall>x. firstStep ''riskSignals'' (result_steps ?res) = Some x \<and> \<not> step_ok x \<longrightarrow>
                  result_fallbackUsed ?res
                  \<and> risk ?res = ''medium''
                  \<and> (\<exists>more. reasons ?res = ''Risk assessment unavailable (fallback)'' # more)
                  \<and> recommendedAction ?res \<in> set definedActions"
    unfolding fields
  proof (intro allI impI, elim conjE)
    fix x assume x: "firstStep ''riskSignals'' (steps ?stF) = Some x" "\<not> step_ok x"
    from inv have h: "fallbackHolds ?stF" and v: "proposalValid ?stF"
      by simp_all
    from fallback_decision [OF h v x]
    show "fallbackUsed ?stF \<and> finalRisk ?stF = ''medium''
          \<and> (\<exists>more. finalReasons ?stF = ''Risk assessment unavailable (fallback)'' # more)
          \<and> finalAction ?stF \<in> set definedActions"
      by (intro conjI)
  qed
  show ?thesis
    by (rule exI [of _ ?res], rule exI [of _ "sysOf st'"], rule conjI, rule exq, rule concl)
qed

text \<open>
  The fraud agent refuses every connection; the other tools answer. The proposal tool does
  not see the fallback value, which is not written to the context, and proposes
  \<open>mark_false_positive\<close>.
\<close>

theorem risk_failure_yields_fallback_decision_witness:
  "case fst (executeTriage (Orchestrator_tools (demoAgents\<lparr>FraudAgent_run := refusingRun\<rparr>))
               (\<lambda>_ _. 0) ''run1'' ''alert1'' (Some sseCallback) demoSys) of
     Inl e \<Rightarrow> False
   | Inr res \<Rightarrow>
       map (\<lambda>x. (step x, step_ok x)) (result_steps res)
         = [(''dataAccess'', True), (''riskSignals'', False), (''kbLookup'', True),
            (''decide'', True), (''proposeAction'', True)]
       \<and> result_fallbackUsed res
       \<and> risk res = ''medium''
       \<and> reasons res = [''Risk assessment unavailable (fallback)'', ''KB refs: Disputes'']
       \<and> recommendedAction res = ''mark_false_positive''
       \<and> recommendedAction res \<in> set definedActions"
proof -
  have alert: "alerts (db demoSys) ''alert1'' = Some demoAlert"
    and accepted: "rejects (db demoSys) operation = None" for operation
    by (simp_all add: demoSys_def demoDb_def)
  have cb: "accepts (Some sseCallback) ev written" for ev written
    by (simp add: accepts_def sseCallback_def)
  note T = risk_failure_yields_fallback_decision
    [of demoSys "''alert1''" demoAlert "''run1''" "Some sseCallback"
        "demoAgents\<lparr>FraudAgent_run := refusingRun\<rparr>" "\<lambda>_ _. 0",
     OF alert accepted accepted accepted cb]
  have run: "case fst (executeTriage (Orchestrator_tools (demoAgents\<lparr>FraudAgent_run := refusingRun\<rparr>))
               (\<lambda>_ _. 0) ''run1'' ''alert1'' (Some sseCallback) demoSys) of
     Inl e \<Rightarrow> False
   | Inr res \<Rightarrow>
       map (\<lambda>x. (step x, step_ok x)) (result_steps res)
         = [(''dataAccess'', True), (''riskSignals'', False), (''kbLookup'', True),
            (''decide'', True), (''proposeAction'', True)]
       \<and> result_fallbackUsed res
       \<and> risk res = ''medium''
       \<and> reasons res = [''Risk assessment unavailable (fallback)'', ''KB refs: Disputes'']
       \<and> recommendedAction res = ''mark_false_positive''
       \<and> recommendedAction res \<in> set definedActions"
    by code_simp
  from T run show ?thesis
    by - assumption
qed

subsection \<open>Traces and steps\<close>

text \<open>The loop writes at most one trace row for each step of the plan.\<close>

lemma runSteps_traces_bounded:
  "\<exists>rows. agentTraces (db (runSteps call pl st)) = agentTraces (db st) @ rows
          \<and> length rows \<le> length pl"
proof (induction pl arbitrary: st)
  case Nil
  then show ?case by simp
next
  case (Cons p pl)
  show ?case
  proof (cases "tools call p")
    case None
    from Cons.IH [of st] obtain rows where
      "agentTraces (db (runSteps call pl st)) = agentTraces (db st) @ rows" "length rows \<le> length pl"
      by blast
    with None show ?thesis
      by (simp add: runSteps_Cons del: runSteps.simps(2))
  next
    case (Some tp)
    obtain go st' where it: "iteration call tp p st = (go, st')"
      by (cases "iteration call tp p st")
    from iteration_records [OF it] obtain r1 where
      r1: "agentTraces (db st') = agentTraces (db st) @ r1" "length r1 \<le> 1"
      by blast
    from Cons.IH [of st'] obtain r2 where
      r2: "agentTraces (db (runSteps call pl st')) = agentTraces (db st') @ r2"
        "length r2 \<le> length pl"
      by blast
    show ?thesis
    proof (cases go)
      case True
      with Some it r1 r2 show ?thesis
        by (intro exI [of _ "r1 @ r2"]) (simp add: runSteps_Cons del: runSteps.simps(2))
    next
      case False
      with Some it r1 show ?thesis
        by (intro exI [of _ r1]) (simp add: runSteps_Cons del: runSteps.simps(2))
    qed
  qed
qed

text \<open>
  Claim C4. Two runs in which the \<^verbatim>\<open>catch\<close> clause of the loop is entered for the step
  \<open>kbLookup\<close>; every tool answers. In the first the callback throws on the event
  \<^verbatim>\<open>running\<close> of that step: the result lists five steps, \<open>kbLookup\<close> as failed, and the
  trace table has four rows, numbered 1, 2, 4 and 5. In the second the database refuses the
  trace row of that step: the result lists six steps, \<open>kbLookup\<close> once as done and once
  as failed, and the trace table has four rows, numbered 1, 2, 5 and 6. The clause records
  the failed step in the result and writes no trace.
\<close>

theorem caught_step_has_no_trace:
  "(case executeTriage (Orchestrator_tools demoAgents) (\<lambda>_ _. 0) ''run1'' ''alert1''
           (Some (throwingOn (ToolUpdate ''kbLookup'' ''running'' None ''run1''))) demoSys of
      (Inl e, s') \<Rightarrow> False
    | (Inr res, s') \<Rightarrow>
        map (\<lambda>x. (step x, step_ok x)) (result_steps res)
          = [(''dataAccess'', True), (''riskSignals'', True), (''kbLookup'', False),
             (''decide'', True), (''proposeAction'', True)]
        \<and> map (\<lambda>t. (seq t, trace_step t)) (agentTraces (db s'))
          = [(1, ''dataAccess''), (2, ''riskSignals''), (4, ''decide''), (5, ''proposeAction'')])
   \<and> (case executeTriage (Orchestrator_tools demoAgents) (\<lambda>_ _. 0) ''run1'' ''alert1'' None
             (demoSys\<lparr>db := demoDb\<lparr>rejects := rejectingTraceOf ''kbLookup''\<rparr>\<rparr>) of
        (Inl e, s') \<Rightarrow> False
      | (Inr res, s') \<Rightarrow>
          map (\<lambda>x. (step x, step_ok x)) (result_steps res)
            = [(''dataAccess'', True), (''riskSignals'', True), (''kbLookup'', True),
               (''kbLookup'', False), (''decide'', True), (''proposeAction'', True)]
          \<and> map (\<lambda>t. (seq t, trace_step t)) (agentTraces (db s'))
            = [(1, ''dataAccess''), (2, ''riskSignals''), (5, ''decide''), (6, ''proposeAction'')])"
  by code_simp

end
